theory Spec2Isabelle
  imports Complex_Main "HOL-Library.Word"
begin

unbundle bit_operations_syntax

section \<open>Session management retransmission (src/rpc_impl/rpc_sm_retry.cc)\<close>

subsection \<open>Double-precision values\<close>

text \<open>
  The sweep computes the elapsed time as a \<open>double\<close>. A \<open>double\<close> is an IEEE 754 binary64
  value: a finite value, given here by the real number it denotes, an infinity, or not
  a number. The two zeros are not told apart; neither the product nor the comparison
  below depends on the sign of a zero. Arithmetic rounds to nearest, ties to even, which
  is the rounding the compiled code runs under.
\<close>

datatype double = Finite real | PlusInf | MinusInf | NaN

definition pow2 :: "int \<Rightarrow> real" where
  "pow2 k = (if 0 \<le> k then 2 ^ nat k else 1 / 2 ^ nat (- k))"

text \<open>
  The binary exponent of a positive real as a \<open>double\<close> sees it: the \<open>e\<close> with
  \<open>2^e \<le> a < 2^(e+1)\<close>, but at least -1022 (below that the values are subnormal) and at
  most 1024 (from there on the value overflows).
\<close>

function exp_up :: "int \<Rightarrow> real \<Rightarrow> int" where
  "exp_up e a = (if 1024 \<le> e \<or> a < pow2 (e + 1) then e else exp_up (e + 1) a)"
  by pat_completeness auto
termination
  by (relation "measure (\<lambda>(e, a). nat (1024 - e))") auto

function exp_down :: "int \<Rightarrow> real \<Rightarrow> int" where
  "exp_down e a = (if e \<le> - 1022 \<or> pow2 e \<le> a then e else exp_down (e - 1) a)"
  by pat_completeness auto
termination
  by (relation "measure (\<lambda>(e, a). nat (e + 1022))") auto

declare exp_up.simps [simp del] exp_down.simps [simp del]

definition double_exponent :: "real \<Rightarrow> int" where
  "double_exponent a = (if 1 \<le> a then exp_up 0 a else exp_down (- 1) a)"

definition round_half_even :: "real \<Rightarrow> int" where
  "round_half_even m =
     (let n = \<lfloor>m\<rfloor>; r = m - of_int n
      in if r < 1 / 2 then n else if 1 / 2 < r then n + 1 else if even n then n else n + 1)"

text \<open>
  The \<open>double\<close> nearest to a real: the real is rounded to a multiple of the unit in the
  last of the 53 places of its binade, and a result of \<open>2^1024\<close> or more is an infinity.
\<close>

definition round_double :: "real \<Rightarrow> double" where
  "round_double x =
     (if x = 0 then Finite 0
      else
        let a = \<bar>x\<bar>;
            ulp = pow2 (double_exponent a - 52);
            y = of_int (round_half_even (a / ulp)) * ulp
        in if pow2 1024 \<le> y then (if 0 < x then PlusInf else MinusInf)
           else Finite (if 0 < x then y else - y))"

text \<open>The product \<open>a * b\<close> of two \<open>double\<close>s.\<close>

fun dmul :: "double \<Rightarrow> double \<Rightarrow> double" where
  "dmul (Finite x) (Finite y) = round_double (x * y)"
| "dmul NaN b = NaN"
| "dmul a NaN = NaN"
| "dmul (Finite x) PlusInf = (if x = 0 then NaN else if 0 < x then PlusInf else MinusInf)"
| "dmul (Finite x) MinusInf = (if x = 0 then NaN else if 0 < x then MinusInf else PlusInf)"
| "dmul PlusInf (Finite y) = (if y = 0 then NaN else if 0 < y then PlusInf else MinusInf)"
| "dmul MinusInf (Finite y) = (if y = 0 then NaN else if 0 < y then MinusInf else PlusInf)"
| "dmul PlusInf PlusInf = PlusInf"
| "dmul PlusInf MinusInf = MinusInf"
| "dmul MinusInf PlusInf = MinusInf"
| "dmul MinusInf MinusInf = PlusInf"

text \<open>The comparison \<open>a > b\<close> of two \<open>double\<close>s, which is false when either is not a number.\<close>

fun dgt :: "double \<Rightarrow> double \<Rightarrow> bool" where
  "dgt NaN b = False"
| "dgt a NaN = False"
| "dgt (Finite x) (Finite y) = (y < x)"
| "dgt (Finite x) PlusInf = False"
| "dgt (Finite x) MinusInf = True"
| "dgt PlusInf PlusInf = False"
| "dgt PlusInf b = True"
| "dgt MinusInf b = False"

subsection \<open>Data\<close>

text \<open>
  The file rpc_sm_retry.cc holds five member functions of \<open>Rpc\<close>. The classes they
  work on (\<open>Session\<close>, \<open>SessionMgmtPkt\<close>, \<open>in_flight_req_t\<close>) are declared in headers
  that are not part of the sources at hand; their fields are taken from the uses in
  rpc_sm_retry.cc and from the data model and the management wire format of the
  specification.

  A \<open>Session *\<close> is an address. The object an address designates is looked up in the
  memory \<open>mem\<close> of the endpoint, so that two in-flight entries naming the same
  session alias the same object.
\<close>

type_synonym session_ptr = nat

abbreviation (input) nullptr :: session_ptr where
  "nullptr \<equiv> 0"

datatype error = AssertionFailed

datatype Role = kServer | kClient

datatype SessionState =
    kConnectInProgress
  | kConnected
  | kDisconnectWaitForConnect
  | kDisconnectInProgress
  | kDisconnected

datatype SessionMgmtPktType = kConnectReq | kConnectResp | kDisconnectReq | kDisconnectResp

text \<open>
  Modelled from the spec: the endpoint descriptor of the management wire format
  (hostname, transport type, endpoint id, session number, opaque transport-specific
  bytes); its declaration is not in the sources.
\<close>

record EndpointDescriptor =
  hostname :: string
  transport_type :: "8 word"
  endpoint_id :: "8 word"
  session_number :: "16 word"
  transport_specific :: "8 word list"

record Session =
  role :: Role
  state :: SessionState
  client :: EndpointDescriptor
  server :: EndpointDescriptor

text \<open>
  Modelled from the spec: a management packet carries the packet kind, the client
  descriptor and the server descriptor. The status code, which is meaningful on replies
  only, is never written by the code of this file and is left out.
\<close>

record SessionMgmtPkt =
  pkt_type :: SessionMgmtPktType
  pkt_client :: EndpointDescriptor
  pkt_server :: EndpointDescriptor

record in_flight_req_t =
  prev_tsc :: "64 word"
  session :: session_ptr

text \<open>
  The part of the endpoint the file reads and writes. \<open>udp_sent\<close> is the sequence of
  datagrams handed to the management channel so far, each with the destination hostname
  and the UDP configuration it was sent with.
\<close>

record Rpc =
  mem :: "session_ptr \<Rightarrow> Session"
  session_vec :: "session_ptr list"
  in_flight_vec :: "in_flight_req_t list"
  freq_ghz :: double
  udp_config :: nat
  udp_sent :: "(string \<times> nat \<times> SessionMgmtPkt) list"

subsection \<open>Helpers declared outside the file\<close>

text \<open>
  Modelled from the spec: \<open>is_session_managed\<close> is declared in rpc.h, which is not in the
  sources. The endpoint owns a table of its sessions; a session is managed when the
  table holds it.
\<close>

definition is_session_managed :: "Rpc \<Rightarrow> session_ptr \<Rightarrow> bool" where
  "is_session_managed rpc s = (s \<in> set (session_vec rpc))"

text \<open>
  Modelled from the spec: \<open>SessionMgmtPkt::send_to\<close> is not in the sources. The transport
  for management packets is an unreliable, hostname-addressed datagram channel; sending
  hands one datagram to it.
\<close>

definition send_to :: "SessionMgmtPkt \<Rightarrow> string \<Rightarrow> nat \<Rightarrow> Rpc \<Rightarrow> Rpc" where
  "send_to pkt dst_hostname cfg rpc = rpc\<lparr>udp_sent := udp_sent rpc @ [(dst_hostname, cfg, pkt)]\<rparr>"

text \<open>
  Modelled from the spec: \<open>operator==\<close> of \<open>in_flight_req_t\<close> is declared in rpc.h, which is
  not in the sources. An in-flight management request is the pair of a session and its
  last-send timestamp, and \<open>remove_from_in_flight\<close> looks an entry up with a dummy whose
  timestamp is 0: two entries are equal when they name the same session.
\<close>

definition in_flight_req_eq :: "in_flight_req_t \<Rightarrow> in_flight_req_t \<Rightarrow> bool" where
  "in_flight_req_eq a b = (session a = session b)"

subsection \<open>Sending the requests\<close>

definition send_connect_req_one :: "session_ptr \<Rightarrow> Rpc \<Rightarrow> error + Rpc" where
  "send_connect_req_one s rpc =
     (if s = nullptr then Inl AssertionFailed
      else if \<not> is_session_managed rpc s then Inl AssertionFailed
      else if role (mem rpc s) \<noteq> kClient then Inl AssertionFailed
      else if \<not> (state (mem rpc s) = kConnectInProgress \<or>
                  state (mem rpc s) = kDisconnectWaitForConnect) then Inl AssertionFailed
      else
        let connect_req = \<lparr>pkt_type = kConnectReq,
                           pkt_client = client (mem rpc s),
                           pkt_server = server (mem rpc s)\<rparr>
        in Inr (send_to connect_req (hostname (server (mem rpc s))) (udp_config rpc) rpc))"

text \<open>The body of \<open>send_disconnect_req_one\<close> is \<open>_unused(session)\<close> and nothing else.\<close>

definition send_disconnect_req_one :: "session_ptr \<Rightarrow> Rpc \<Rightarrow> error + Rpc" where
  "send_disconnect_req_one s rpc = Inr rpc"

subsection \<open>The in-flight list\<close>

text \<open>The range-for of \<open>is_in_flight\<close>, which returns at the first entry of the session.\<close>

fun in_flight_scan :: "session_ptr \<Rightarrow> in_flight_req_t list \<Rightarrow> bool" where
  "in_flight_scan s [] = False"
| "in_flight_scan s (req # rest) = (if session req = s then True else in_flight_scan s rest)"

definition is_in_flight :: "Rpc \<Rightarrow> session_ptr \<Rightarrow> bool" where
  "is_in_flight rpc s = in_flight_scan s (in_flight_vec rpc)"

text \<open>
  \<open>add_to_in_flight\<close>: the time stamp counter is read once, after the checks; its value is
  the argument \<open>tsc\<close>. The duplicate scan fails its assertion at the first entry of the
  session.
\<close>

definition add_to_in_flight :: "64 word \<Rightarrow> session_ptr \<Rightarrow> Rpc \<Rightarrow> error + Rpc" where
  "add_to_in_flight tsc s rpc =
     (if s = nullptr then Inl AssertionFailed
      else if \<not> is_session_managed rpc s then Inl AssertionFailed
      else if role (mem rpc s) \<noteq> kClient then Inl AssertionFailed
      else if in_flight_scan s (in_flight_vec rpc) then Inl AssertionFailed
      else Inr (rpc\<lparr>in_flight_vec := in_flight_vec rpc @ [\<lparr>prev_tsc = tsc, session = s\<rparr>]\<rparr>))"

text \<open>
  \<open>remove_from_in_flight\<close>: \<open>std::remove\<close> followed by \<open>erase\<close> drops every element equal
  to the dummy and keeps the others in order. \<open>initial_size\<close> is at least 1 where it is
  decremented, since \<open>is_in_flight\<close> has been asserted.
\<close>

definition remove_from_in_flight :: "session_ptr \<Rightarrow> Rpc \<Rightarrow> error + Rpc" where
  "remove_from_in_flight s rpc =
     (if s = nullptr then Inl AssertionFailed
      else if \<not> is_session_managed rpc s then Inl AssertionFailed
      else if \<not> is_in_flight rpc s then Inl AssertionFailed
      else
        let initial_size = length (in_flight_vec rpc);
            dummy_req = \<lparr>prev_tsc = 0, session = s\<rparr>;
            rpc' = rpc\<lparr>in_flight_vec :=
                     filter (\<lambda>req. \<not> in_flight_req_eq req dummy_req) (in_flight_vec rpc)\<rparr>
        in if length (in_flight_vec rpc') = initial_size - 1 then Inr rpc'
           else Inl AssertionFailed)"

subsection \<open>The retransmit sweep\<close>

text \<open>
  \<open>to_sec\<close> (a cycle count and a frequency in GHz to seconds, a \<open>double\<close>) and the
  constant \<open>kSessionMgmtRetransMs\<close> are declared outside the file and are parameters
  here; the threshold is given as the \<open>double\<close> it is compared as. The elapsed time
  \<open>to_sec(elapsed_cycles, nexus->freq_ghz) * 1000\<close> is a product of \<open>double\<close>s, and
  \<open>elapsed_ms > kSessionMgmtRetransMs\<close> a comparison of \<open>double\<close>s.
\<close>

definition elapsed_ms ::
  "(64 word \<Rightarrow> double \<Rightarrow> double) \<Rightarrow> Rpc \<Rightarrow> 64 word \<Rightarrow> in_flight_req_t \<Rightarrow> double" where
  "elapsed_ms to_sec rpc cur_tsc req =
     dmul (to_sec (cur_tsc - prev_tsc req) (freq_ghz rpc)) (Finite 1000)"

text \<open>One iteration of the range-for of \<open>retry_in_flight\<close>, on the entry at index \<open>i\<close>.\<close>

definition retry_one ::
  "(64 word \<Rightarrow> double \<Rightarrow> double) \<Rightarrow> double \<Rightarrow> 64 word \<Rightarrow> nat \<Rightarrow> Rpc \<Rightarrow> error + Rpc" where
  "retry_one to_sec kSessionMgmtRetransMs cur_tsc i rpc =
     (let req = in_flight_vec rpc ! i in
      if session req = nullptr then Inl AssertionFailed
      else
        let st = state (mem rpc (session req)) in
        if \<not> (st = kConnectInProgress \<or> st = kDisconnectWaitForConnect \<or>
                st = kDisconnectInProgress) then Inl AssertionFailed
        else if cur_tsc - prev_tsc req = 0 then Inl AssertionFailed
        else if dgt (elapsed_ms to_sec rpc cur_tsc req) kSessionMgmtRetransMs then
          (case (case st of
                   kConnectInProgress \<Rightarrow> send_connect_req_one (session req) rpc
                 | kDisconnectWaitForConnect \<Rightarrow> send_connect_req_one (session req) rpc
                 | kDisconnectInProgress \<Rightarrow> send_disconnect_req_one (session req) rpc
                 | _ \<Rightarrow> Inl AssertionFailed) of
             Inl e \<Rightarrow> Inl e
           | Inr rpc' \<Rightarrow>
               Inr (rpc'\<lparr>in_flight_vec :=
                      (in_flight_vec rpc')[i := (in_flight_vec rpc' ! i)\<lparr>prev_tsc := cur_tsc\<rparr>]\<rparr>))
        else Inr rpc)"

lemma retry_one_length:
  "retry_one to_sec T cur i rpc = Inr rpc' \<Longrightarrow> length (in_flight_vec rpc') = length (in_flight_vec rpc)"
  by (auto simp: retry_one_def Let_def send_connect_req_one_def send_disconnect_req_one_def
      send_to_def split: if_splits sum.splits SessionState.splits)

function retry_from ::
  "(64 word \<Rightarrow> double \<Rightarrow> double) \<Rightarrow> double \<Rightarrow> 64 word \<Rightarrow> nat \<Rightarrow> Rpc \<Rightarrow> error + Rpc" where
  "retry_from to_sec kSessionMgmtRetransMs cur_tsc i rpc =
     (if i < length (in_flight_vec rpc) then
        (case retry_one to_sec kSessionMgmtRetransMs cur_tsc i rpc of
           Inl e \<Rightarrow> Inl e
         | Inr rpc' \<Rightarrow> retry_from to_sec kSessionMgmtRetransMs cur_tsc (Suc i) rpc')
      else Inr rpc)"
  by pat_completeness auto
termination
  by (relation "measure (\<lambda>(to_sec, T, cur, i, rpc). length (in_flight_vec rpc) - i)")
     (auto dest: retry_one_length)

definition retry_in_flight ::
  "(64 word \<Rightarrow> double \<Rightarrow> double) \<Rightarrow> double \<Rightarrow> 64 word \<Rightarrow> Rpc \<Rightarrow> error + Rpc" where
  "retry_in_flight to_sec kSessionMgmtRetransMs cur_tsc rpc =
     (if \<not> length (in_flight_vec rpc) > 0 then Inl AssertionFailed
      else retry_from to_sec kSessionMgmtRetransMs cur_tsc 0 rpc)"


declare retry_from.simps [simp del]

section \<open>The nested request test (tests/test_req_in_req_func.cc)\<close>

subsection \<open>The tag\<close>

text \<open>
  \<open>tag_t\<close> is a union of a pointer, a struct of two 16-bit and one 32-bit unsigned field,
  and a \<open>size_t\<close>; the static assertion fixes its size to that of \<open>size_t\<close>, 8 bytes. The
  model keeps the 8 bytes of the object as the 64-bit word that the member \<open>tag\<close> reads.
  The struct has no padding, and on the little-endian machines the runtime is built for
  \<open>req_i\<close> is the bits 0 to 15 of that word, \<open>msgbuf_i\<close> the bits 16 to 31 and
  \<open>req_size\<close> the bits 32 to 63.
\<close>

record tag_t =
  tag :: "64 word"

text \<open>The constructor \<open>tag_t(size_t tag)\<close>.\<close>

definition tag_t_of_size :: "64 word \<Rightarrow> tag_t" where
  "tag_t_of_size t = \<lparr>tag = t\<rparr>"

text \<open>The constructor \<open>tag_t(uint16_t req_i, uint16_t msgbuf_i, uint32_t req_size)\<close>.\<close>

definition tag_t_of_fields :: "16 word \<Rightarrow> 16 word \<Rightarrow> 32 word \<Rightarrow> tag_t" where
  "tag_t_of_fields r m sz =
     \<lparr>tag = ucast r OR push_bit 16 (ucast m) OR push_bit 32 (ucast sz)\<rparr>"

definition req_i :: "tag_t \<Rightarrow> 16 word" where
  "req_i t = ucast (tag t)"

definition msgbuf_i :: "tag_t \<Rightarrow> 16 word" where
  "msgbuf_i t = ucast (drop_bit 16 (tag t))"

definition req_size :: "tag_t \<Rightarrow> 32 word" where
  "req_size t = ucast (drop_bit 32 (tag t))"

subsection \<open>The request size\<close>

text \<open>
  \<open>get_rand_msg_size\<close>: the sample is what \<open>fast_rand.next_u32()\<close> returned. The constant
  \<open>Rpc<IBTransport>::kMaxMsgSize\<close>, a \<open>size_t\<close>, is not in the sources and is a parameter.
  The remainder is taken in \<open>size_t\<close> and stored into the \<open>uint32_t msg_size\<close>.
\<close>

definition get_rand_msg_size :: "64 word \<Rightarrow> 32 word \<Rightarrow> 64 word" where
  "get_rand_msg_size kMaxMsgSize sample =
     (let msg_size = (ucast ((ucast sample :: 64 word) mod kMaxMsgSize) :: 32 word);
          msg_size = (if msg_size = 0 then 1 else msg_size)
      in ucast msg_size)"

subsection \<open>The handlers\<close>

text \<open>
  Modelled from the spec: a \<open>MsgBuffer\<close> is a contiguous byte region with its length; here
  it is the list of its data bytes, and \<open>get_data_size\<close> is the length of the list.
  \<open>alloc_msg_buffer\<close> returns a buffer of the requested size with arbitrary contents,
  given by the function \<open>fresh\<close> from offsets to bytes. A message is delivered to the
  peer's handler or continuation with the bytes it was sent with.
\<close>

type_synonym MsgBuffer = "8 word list"

definition alloc_msg_buffer :: "(nat \<Rightarrow> 8 word) \<Rightarrow> nat \<Rightarrow> MsgBuffer" where
  "alloc_msg_buffer fresh n = map fresh [0..<n]"

text \<open>
  The loop \<open>for (size_t i = 0; i < n; i++) dst[i] = src[i] + 1\<close>, which is the body of both
  request handlers and of the server continuation; the sum is stored into a \<open>uint8_t\<close>.
\<close>

function plus_one_loop :: "nat \<Rightarrow> nat \<Rightarrow> MsgBuffer \<Rightarrow> MsgBuffer \<Rightarrow> MsgBuffer" where
  "plus_one_loop i n src dst =
     (if i < n then plus_one_loop (Suc i) n src (dst[i := src ! i + 1]) else dst)"
  by pat_completeness auto
termination
  by (relation "measure (\<lambda>(i, n, src, dst). n - i)") auto

declare plus_one_loop.simps [simp del]

text \<open>
  \<open>ServerReqInfo\<close>: the size of the client-to-server request and the buffer of the
  server-to-server request. (The request handle it also holds is where the response to
  the client is written.)
\<close>

record ServerReqInfo =
  req_size_cs :: nat
  req_msgbuf_ss :: MsgBuffer

text \<open>
  Server 0's handler for the client's request: the result is the recorded
  \<open>ServerReqInfo\<close>, whose buffer is the request enqueued to server 1.
\<close>

definition req_handler_cs :: "(nat \<Rightarrow> 8 word) \<Rightarrow> MsgBuffer \<Rightarrow> ServerReqInfo" where
  "req_handler_cs fresh req_msgbuf_cs =
     (let size_cs = length req_msgbuf_cs;
          buf_ss = alloc_msg_buffer fresh size_cs
      in \<lparr>req_size_cs = size_cs,
          req_msgbuf_ss = plus_one_loop 0 size_cs req_msgbuf_cs buf_ss\<rparr>)"

text \<open>Server 1's handler: the result is the response enqueued to server 0.\<close>

definition req_handler_ss :: "(nat \<Rightarrow> 8 word) \<Rightarrow> MsgBuffer \<Rightarrow> MsgBuffer" where
  "req_handler_ss fresh req_msgbuf =
     (let size_ss = length req_msgbuf;
          dyn_resp_msgbuf = alloc_msg_buffer fresh size_ss
      in plus_one_loop 0 size_ss req_msgbuf dyn_resp_msgbuf)"

text \<open>
  The checking loop of the server continuation asserts
  \<open>req_msgbuf_ss.buf[i] + 1 == resp_msgbuf_ss->buf[i]\<close>; both sides are promoted to \<open>int\<close>,
  so the sum does not wrap.
\<close>

fun check_plus_one :: "nat \<Rightarrow> nat \<Rightarrow> MsgBuffer \<Rightarrow> MsgBuffer \<Rightarrow> bool" where
  "check_plus_one i 0 req resp = True"
| "check_plus_one i (Suc k) req resp =
     (if uint (req ! i) + 1 = uint (resp ! i) then check_plus_one (Suc i) k req resp else False)"

text \<open>
  Server 0's continuation on the response of server 1: the result is the response
  enqueued to the client.
\<close>

definition server_cont_func ::
  "(nat \<Rightarrow> 8 word) \<Rightarrow> MsgBuffer \<Rightarrow> ServerReqInfo \<Rightarrow> error + MsgBuffer" where
  "server_cont_func fresh resp_msgbuf_ss srv_req_info =
     (let size_cs = req_size_cs srv_req_info in
      if length resp_msgbuf_ss \<noteq> size_cs then Inl AssertionFailed
      else if \<not> check_plus_one 0 size_cs (req_msgbuf_ss srv_req_info) resp_msgbuf_ss
        then Inl AssertionFailed
      else
        let dyn_resp_msgbuf = alloc_msg_buffer fresh size_cs
        in Inr (plus_one_loop 0 size_cs resp_msgbuf_ss dyn_resp_msgbuf))"

subsection \<open>The client\<close>

text \<open>
  \<open>client_request_helper\<close>, up to the call of \<open>enqueue_request\<close>. \<open>region\<close> is the
  memory of the buffer with index \<open>msgbuf_i\<close>, which \<open>client_thread\<close> allocates with
  \<open>kMaxMsgSize\<close> bytes; resizing sets the data size, and the first \<open>req_size\<close> bytes
  are filled with \<open>(uint8_t)msgbuf_i\<close>. \<open>Session::kSessionReqWindow\<close> is not in the
  sources and is a parameter. The result is the request handed to \<open>enqueue_request\<close>
  (the data bytes of the buffer) and its tag.
\<close>

function fill_loop :: "nat \<Rightarrow> nat \<Rightarrow> 8 word \<Rightarrow> MsgBuffer \<Rightarrow> MsgBuffer" where
  "fill_loop i n b buf = (if i < n then fill_loop (Suc i) n b (buf[i := b]) else buf)"
  by pat_completeness auto
termination
  by (relation "measure (\<lambda>(i, n, b, buf). n - i)") auto

declare fill_loop.simps [simp del]

definition client_request_helper ::
  "64 word \<Rightarrow> 64 word \<Rightarrow> 32 word \<Rightarrow> 64 word \<Rightarrow> 64 word \<Rightarrow> MsgBuffer \<Rightarrow>
     error + (MsgBuffer \<times> tag_t)" where
  "client_request_helper kSessionReqWindow kMaxMsgSize sample num_reqs_sent mi region =
     (if \<not> mi < kSessionReqWindow then Inl AssertionFailed
      else
        let size_req = get_rand_msg_size kMaxMsgSize sample;
            buf = fill_loop 0 (unat size_req) (ucast mi) region
        in Inr (take (unat size_req) buf,
                tag_t_of_fields (ucast num_reqs_sent) (ucast mi) (ucast size_req)))"

text \<open>
  The checks of \<open>client_cont_func\<close> on a response and the tag passed back: the size and
  the index are read from the tag; \<open>ASSERT_EQ\<close> compares the response byte with
  \<open>((uint8_t)msgbuf_i) + 3\<close>, an \<open>int\<close>.
\<close>

fun check_plus_three :: "nat \<Rightarrow> nat \<Rightarrow> 64 word \<Rightarrow> MsgBuffer \<Rightarrow> bool" where
  "check_plus_three i 0 mi resp = True"
| "check_plus_three i (Suc k) mi resp =
     (if uint (resp ! i) = uint (ucast mi :: 8 word) + 3 then check_plus_three (Suc i) k mi resp
      else False)"

definition client_cont_func :: "MsgBuffer \<Rightarrow> 64 word \<Rightarrow> bool" where
  "client_cont_func resp_msgbuf t =
     (let tg = tag_t_of_size t;
          size_req = (ucast (req_size tg) :: 64 word);
          mi = (ucast (msgbuf_i tg) :: 64 word)
      in length resp_msgbuf = unat size_req \<and>
         check_plus_three 0 (unat size_req) mi resp_msgbuf)"

section \<open>The timing wheel rate test (tests/util_tests/timing_wheel_test.cc)\<close>

subsection \<open>The wheel\<close>

text \<open>
  Modelled from the spec: the class \<open>TimingWheel\<close> (cc/timing_wheel.h) is not in the
  sources. The wheel is a ring of buckets, each covering \<open>wslot_width_tsc\<close> cycles;
  \<open>base_tsc\<close> is the cycle count at which the first bucket of the list starts, and the
  last bucket of the list is the furthest one. Entries the wheel has released wait in
  the ready queue. Cycle counts inside the wheel are natural numbers. The counter
  \<open>wheel_too_short\<close> counts the insertions beyond the horizon.
\<close>

type_synonym wheel_ent_t = "nat \<times> nat"

record TimingWheel =
  buckets :: "wheel_ent_t list list"
  base_tsc :: nat
  wslot_width_tsc :: nat
  ready_queue :: "wheel_ent_t list"
  wheel_too_short :: nat

text \<open>
  Modelled from the spec: the constructor. A wheel is built with \<open>B\<close> empty buckets
  and an empty ready queue.
\<close>

definition TimingWheel_init :: "nat \<Rightarrow> nat \<Rightarrow> nat \<Rightarrow> TimingWheel" where
  "TimingWheel_init B w t0 =
     \<lparr>buckets = replicate B [], base_tsc = t0, wslot_width_tsc = w, ready_queue = [],
      wheel_too_short = 0\<rparr>"

text \<open>
  Modelled from the spec: \<open>insert(entry, desired_tsc)\<close> places the entry into the bucket
  covering \<open>desired_tsc\<close>; a time in the past or within the current bucket goes to the
  current bucket, a time beyond the horizon to the last bucket, which is counted.
\<close>

definition wheel_insert :: "wheel_ent_t \<Rightarrow> nat \<Rightarrow> TimingWheel \<Rightarrow> TimingWheel" where
  "wheel_insert ent desired_tsc wh =
     (let B = length (buckets wh);
          idx = (if desired_tsc < base_tsc wh + wslot_width_tsc wh then 0
                 else (desired_tsc - base_tsc wh) div wslot_width_tsc wh)
      in if idx < B then wh\<lparr>buckets := (buckets wh)[idx := buckets wh ! idx @ [ent]]\<rparr>
         else wh\<lparr>buckets := (buckets wh)[B - 1 := buckets wh ! (B - 1) @ [ent]],
                 wheel_too_short := wheel_too_short wh + 1\<rparr>)"

text \<open>
  Modelled from the spec: \<open>reap(now_tsc)\<close> advances \<open>base_tsc\<close> one bucket at a time while
  \<open>now_tsc \<ge> base_tsc + w\<close>; every bucket crossed is drained into the ready queue, in
  order, and becomes the furthest bucket of the ring. With a width of 0 the loop of
  the description would not end; the function is meant for wheels of positive width
  and returns a wheel of width 0 as it is.
\<close>

definition reap_bucket :: "TimingWheel \<Rightarrow> TimingWheel" where
  "reap_bucket wh =
     (case buckets wh of
        [] \<Rightarrow> wh\<lparr>base_tsc := base_tsc wh + wslot_width_tsc wh\<rparr>
      | b # bs \<Rightarrow> wh\<lparr>buckets := bs @ [[]], ready_queue := ready_queue wh @ b,
                      base_tsc := base_tsc wh + wslot_width_tsc wh\<rparr>)"

lemma reap_bucket_time:
  "base_tsc (reap_bucket wh) = base_tsc wh + wslot_width_tsc wh"
  "wslot_width_tsc (reap_bucket wh) = wslot_width_tsc wh"
  by (simp_all add: reap_bucket_def split: list.splits)

function reap :: "nat \<Rightarrow> TimingWheel \<Rightarrow> TimingWheel" where
  "reap now_tsc wh =
     (if 0 < wslot_width_tsc wh \<and> base_tsc wh + wslot_width_tsc wh \<le> now_tsc
      then reap now_tsc (reap_bucket wh) else wh)"
  by pat_completeness auto
termination
  by (relation "measure (\<lambda>(now_tsc, wh). now_tsc - base_tsc wh)")
     (auto simp: reap_bucket_time)

declare reap.simps [simp del]

subsection \<open>The rate test\<close>

text \<open>
  The state of \<open>TEST(TimingWheelTest, RateTest)\<close> that its loops change: the wheel and
  the \<open>size_t\<close> variables \<open>last_tsc\<close> and \<open>num_pkts_sent\<close>. The constant \<open>kSessionCredits\<close>
  is not in the sources and is a parameter. \<open>cycles_per_pkt\<close> is computed from the
  target rate in floating point once per outer iteration and is a parameter as well,
  and so is every value \<open>rdtsc()\<close> returns.
\<close>

datatype test_error = PopOnEmptyQueue

record rate_test_state =
  wheel :: TimingWheel
  last_tsc :: "64 word"
  num_pkts_sent :: "64 word"

definition dummy_ent :: wheel_ent_t where
  "dummy_ent = (0, 1)"

definition num_pkts :: "64 word" where
  "num_pkts = 10000"

text \<open>
  ``Send one window'': \<open>for (size_t i = 0; i < kSessionCredits; i++)\<close>, with the number of
  iterations still to run as the first argument.
\<close>

fun send_one_window :: "nat \<Rightarrow> 64 word \<Rightarrow> rate_test_state \<Rightarrow> rate_test_state" where
  "send_one_window 0 cycles_per_pkt st = st"
| "send_one_window (Suc k) cycles_per_pkt st =
     send_one_window k cycles_per_pkt
       (st\<lparr>wheel := wheel_insert dummy_ent (unat (last_tsc st)) (wheel st),
           last_tsc := last_tsc st + cycles_per_pkt\<rparr>)"

text \<open>
  ``Send more'': \<open>for (size_t i = 0; i < num_ready; i++)\<close>, which inserts, advances
  \<open>last_tsc\<close> and pops. \<open>pop\<close> on an empty \<open>std::queue\<close> is undefined and is an error here.
\<close>

fun send_more :: "nat \<Rightarrow> 64 word \<Rightarrow> rate_test_state \<Rightarrow> test_error + rate_test_state" where
  "send_more 0 cycles_per_pkt st = Inr st"
| "send_more (Suc k) cycles_per_pkt st =
     (let wh = wheel_insert dummy_ent (unat (last_tsc st)) (wheel st)
      in case ready_queue wh of
           [] \<Rightarrow> Inl PopOnEmptyQueue
         | e # q \<Rightarrow>
             send_more k cycles_per_pkt
               (st\<lparr>wheel := wh\<lparr>ready_queue := q\<rparr>, last_tsc := last_tsc st + cycles_per_pkt\<rparr>))"

text \<open>The body of \<open>while (num_pkts_sent < num_pkts)\<close>; \<open>now\<close> is the value of \<open>rdtsc()\<close>.\<close>

definition transmit_step ::
  "64 word \<Rightarrow> 64 word \<Rightarrow> rate_test_state \<Rightarrow> test_error + rate_test_state" where
  "transmit_step now cycles_per_pkt st =
     (let wh = reap (unat now) (wheel st);
          num_ready = length (ready_queue wh)
      in if num_ready > 0
         then send_more num_ready cycles_per_pkt
                (st\<lparr>wheel := wh, num_pkts_sent := num_pkts_sent st + of_nat num_ready\<rparr>)
         else Inr (st\<lparr>wheel := wh\<rparr>))"

text \<open>
  The while loop, run on the values \<open>rdtsc()\<close> returns in its iterations: it runs until
  its condition fails or the given values are used up, so that the result is the
  state after that many iterations.
\<close>

fun transmit_loop ::
  "64 word list \<Rightarrow> 64 word \<Rightarrow> rate_test_state \<Rightarrow> test_error + rate_test_state" where
  "transmit_loop [] cycles_per_pkt st = Inr st"
| "transmit_loop (now # clock) cycles_per_pkt st =
     (if num_pkts_sent st < num_pkts
      then (case transmit_step now cycles_per_pkt st of
              Inl e \<Rightarrow> Inl e
            | Inr st' \<Rightarrow> transmit_loop clock cycles_per_pkt st')
      else Inr st)"

text \<open>
  The outer loop \<open>for (size_t iters = 0; iters < 5; iters++)\<close> sets \<open>last_tsc\<close> to a new
  value of \<open>rdtsc()\<close>, sends one window, runs the while loop and empties the ready
  queue. The wheel and \<open>num_pkts_sent\<close> are declared before it and are not reset. The
  state in which its first iteration sends the window: a new wheel of \<open>B\<close> buckets,
  nothing sent, \<open>last_tsc = start\<close>.
\<close>

definition rate_test_start :: "nat \<Rightarrow> nat \<Rightarrow> nat \<Rightarrow> 64 word \<Rightarrow> rate_test_state" where
  "rate_test_start B w t0 start =
     \<lparr>wheel = TimingWheel_init B w t0, last_tsc = start, num_pkts_sent = 0\<rparr>"

section \<open>Definitions for the proofs\<close>

subsection \<open>What one sweep does, entry by entry\<close>

text \<open>
  The following functions are not in the source. They describe the effect of one
  iteration of the sweep and are used to state and prove the lemmas about the loop.
\<close>

definition connect_req_dgram :: "Rpc \<Rightarrow> session_ptr \<Rightarrow> string \<times> nat \<times> SessionMgmtPkt" where
  "connect_req_dgram rpc s =
     (hostname (server (mem rpc s)), udp_config rpc,
      \<lparr>pkt_type = kConnectReq, pkt_client = client (mem rpc s), pkt_server = server (mem rpc s)\<rparr>)"

definition connecting :: "Rpc \<Rightarrow> in_flight_req_t \<Rightarrow> bool" where
  "connecting rpc req =
     (state (mem rpc (session req)) = kConnectInProgress \<or>
      state (mem rpc (session req)) = kDisconnectWaitForConnect)"

definition sweep_entry ::
  "(64 word \<Rightarrow> double \<Rightarrow> double) \<Rightarrow> double \<Rightarrow> 64 word \<Rightarrow> Rpc \<Rightarrow> in_flight_req_t \<Rightarrow> in_flight_req_t" where
  "sweep_entry to_sec T cur rpc req =
     (if dgt (elapsed_ms to_sec rpc cur req) T then req\<lparr>prev_tsc := cur\<rparr> else req)"

definition sweep_sent ::
  "(64 word \<Rightarrow> double \<Rightarrow> double) \<Rightarrow> double \<Rightarrow> 64 word \<Rightarrow> Rpc \<Rightarrow> in_flight_req_t list \<Rightarrow>
     (string \<times> nat \<times> SessionMgmtPkt) list" where
  "sweep_sent to_sec T cur rpc reqs =
     map (\<lambda>req. connect_req_dgram rpc (session req))
       (filter (\<lambda>req. connecting rpc req \<and> dgt (elapsed_ms to_sec rpc cur req) T) reqs)"

text \<open>The conditions under which the assertions of one iteration hold.\<close>

definition sweep_ready ::
  "(64 word \<Rightarrow> double \<Rightarrow> double) \<Rightarrow> double \<Rightarrow> 64 word \<Rightarrow> Rpc \<Rightarrow> in_flight_req_t \<Rightarrow> bool" where
  "sweep_ready to_sec T cur rpc req =
     (session req \<noteq> nullptr \<and>
      (connecting rpc req \<or> state (mem rpc (session req)) = kDisconnectInProgress) \<and>
      cur - prev_tsc req \<noteq> 0 \<and>
      (if connecting rpc req \<and> dgt (elapsed_ms to_sec rpc cur req) T
       then is_session_managed rpc (session req) \<and> role (mem rpc (session req)) = kClient
       else True))"

subsection \<open>An example endpoint\<close>

text \<open>
  Three client sessions, at addresses 1, 2 and 3, in the states connect-in-progress,
  disconnect-in-progress and disconnect-wait-for-connect. With a 2 GHz clock and a
  threshold of 5 ms, at cycle 20000000 the entries stamped 0 are 10 ms old and the
  entry stamped 19999000 is 0.0005 ms old.
\<close>

definition ex_desc :: "string \<Rightarrow> EndpointDescriptor" where
  "ex_desc h = \<lparr>hostname = h, transport_type = 0, endpoint_id = 1, session_number = 0,
                transport_specific = []\<rparr>"

definition ex_session :: "SessionState \<Rightarrow> Session" where
  "ex_session st =
     \<lparr>role = kClient, state = st, client = ex_desc ''client'', server = ex_desc ''server''\<rparr>"

definition ex_mem :: "session_ptr \<Rightarrow> Session" where
  "ex_mem p = (if p = 1 then ex_session kConnectInProgress
               else if p = 2 then ex_session kDisconnectInProgress
               else ex_session kDisconnectWaitForConnect)"

definition ex_rpc :: "in_flight_req_t list \<Rightarrow> Rpc" where
  "ex_rpc reqs = \<lparr>mem = ex_mem, session_vec = [1, 2, 3], in_flight_vec = reqs,
                  freq_ghz = Finite 2, udp_config = 31850, udp_sent = []\<rparr>"

text \<open>
  The conversion of the example: \<open>cycles / (freq_ghz * 1000000000)\<close> in \<open>double\<close>s, the
  cycle count converted first; for a frequency whose product with \<open>10^9\<close> is not finite
  or is zero the example does not say more than ``not a number''.
\<close>

definition ex_to_sec :: "64 word \<Rightarrow> double \<Rightarrow> double" where
  "ex_to_sec cycles freq =
     (case (round_double (real (unat cycles)), dmul freq (Finite 1000000000)) of
        (Finite c, Finite hz) \<Rightarrow> (if hz = 0 then NaN else round_double (c / hz))
      | _ \<Rightarrow> NaN)"

definition ex_connect_req :: "string \<times> nat \<times> SessionMgmtPkt" where
  "ex_connect_req =
     (''server'', 31850,
      \<lparr>pkt_type = kConnectReq, pkt_client = ex_desc ''client'', pkt_server = ex_desc ''server''\<rparr>)"

text \<open>The in-flight list of the example and the endpoint after the sweep at cycle 20000000.\<close>

definition ex_in_flight :: "in_flight_req_t list" where
  "ex_in_flight = [\<lparr>prev_tsc = 0, session = 1\<rparr>, \<lparr>prev_tsc = 0, session = 2\<rparr>,
                   \<lparr>prev_tsc = 19999000, session = 3\<rparr>]"

definition ex_swept :: Rpc where
  "ex_swept =
     (ex_rpc [\<lparr>prev_tsc = 20000000, session = 1\<rparr>, \<lparr>prev_tsc = 20000000, session = 2\<rparr>,
              \<lparr>prev_tsc = 19999000, session = 3\<rparr>])\<lparr>udp_sent := [ex_connect_req]\<rparr>"

subsection \<open>The entries of the wheel in the rate test\<close>

text \<open>The number of entries waiting in the buckets of a wheel.\<close>

definition in_wheel :: "TimingWheel \<Rightarrow> nat" where
  "in_wheel wh = length (concat (buckets wh))"

text \<open>
  The state of the test between two iterations of the while loop: the wheel is well
  formed, one window of entries waits in its buckets, and the ready queue is empty.
\<close>

definition window_in_wheel :: "nat \<Rightarrow> rate_test_state \<Rightarrow> bool" where
  "window_in_wheel C st =
     (buckets (wheel st) \<noteq> [] \<and> in_wheel (wheel st) = C \<and> ready_queue (wheel st) = [])"

section \<open>Lemmas\<close>

subsection \<open>The elapsed times of the example\<close>

lemma round_double_pos:
  assumes "0 < x" and "double_exponent x = e" and "round_half_even (x / pow2 (e - 52)) = n"
    and "of_int n * pow2 (e - 52) = y" and "y < pow2 1024"
  shows "round_double x = Finite y"
  using assms by (simp add: round_double_def Let_def)

lemmas double_eval =
  double_exponent_def exp_up.simps exp_down.simps pow2_def round_half_even_def Let_def

lemma ex_hz: "dmul (Finite 2) (Finite 1000000000) = Finite 2000000000"
proof -
  have "round_double 2000000000 = Finite 2000000000"
    by (rule round_double_pos[where e = 30 and n = 8388608000000000])
       (simp_all add: double_eval)
  then show ?thesis by simp
qed

lemma ex_cycles:
  "round_double 20000000 = Finite 20000000"
  "round_double 10000000 = Finite 10000000"
  "round_double 1000 = Finite 1000"
proof -
  show "round_double 20000000 = Finite 20000000"
    by (rule round_double_pos[where e = 24 and n = 5368709120000000])
       (simp_all add: double_eval)
  show "round_double 10000000 = Finite 10000000"
    by (rule round_double_pos[where e = 23 and n = 5368709120000000])
       (simp_all add: double_eval)
  show "round_double 1000 = Finite 1000"
    by (rule round_double_pos[where e = 9 and n = 8796093022208000])
       (simp_all add: double_eval)
qed

text \<open>
  The seconds for 20000000, 10000000 and 1000 cycles at 2 GHz: the \<open>double\<close>s nearest to
  0.01, 0.005 and 0.0000005, none of which is a \<open>double\<close> itself.
\<close>

lemma ex_to_sec_values:
  "ex_to_sec 20000000 (Finite 2) = Finite (5764607523034235 / 2 ^ 59)"
  "ex_to_sec 10000000 (Finite 2) = Finite (5764607523034235 / 2 ^ 60)"
  "ex_to_sec 1000 (Finite 2) = Finite (4722366482869645 / 2 ^ 73)"
proof -
  have a: "round_double (1 / 100) = Finite (5764607523034235 / 2 ^ 59)"
    by (rule round_double_pos[where e = "- 7" and n = 5764607523034235])
       (simp_all add: double_eval)
  have b: "round_double (1 / 200) = Finite (5764607523034235 / 2 ^ 60)"
    by (rule round_double_pos[where e = "- 8" and n = 5764607523034235])
       (simp_all add: double_eval)
  have c: "round_double (1 / 2000000) = Finite (4722366482869645 / 2 ^ 73)"
    by (rule round_double_pos[where e = "- 21" and n = 4722366482869645])
       (simp_all add: double_eval)
  show "ex_to_sec 20000000 (Finite 2) = Finite (5764607523034235 / 2 ^ 59)"
    using a by (simp add: ex_to_sec_def ex_hz ex_cycles del: dmul.simps)
  show "ex_to_sec 10000000 (Finite 2) = Finite (5764607523034235 / 2 ^ 60)"
    using b by (simp add: ex_to_sec_def ex_hz ex_cycles del: dmul.simps)
  show "ex_to_sec 1000 (Finite 2) = Finite (4722366482869645 / 2 ^ 73)"
    using c by (simp add: ex_to_sec_def ex_hz ex_cycles del: dmul.simps)
qed

text \<open>
  The milliseconds: the products with 1000, rounded. 10000000 cycles at 2 GHz are
  exactly 5 ms as a \<open>double\<close>, although the seconds, being the \<open>double\<close> nearest to
  0.005, lie above 0.005 and their exact product with 1000 lies above 5.
\<close>

lemma ex_elapsed_10ms: "dmul (ex_to_sec 20000000 (Finite 2)) (Finite 1000) = Finite 10"
proof -
  have "round_double (5764607523034235 / 2 ^ 59 * 1000) = Finite 10"
    by (rule round_double_pos[where e = 3 and n = 5629499534213120])
       (simp_all add: double_eval)
  then show ?thesis by (simp add: ex_to_sec_values)
qed

lemma ex_elapsed_5ms: "dmul (ex_to_sec 10000000 (Finite 2)) (Finite 1000) = Finite 5"
proof -
  have "round_double (5764607523034235 / 2 ^ 60 * 1000) = Finite 5"
    by (rule round_double_pos[where e = 2 and n = 5629499534213120])
       (simp_all add: double_eval)
  then show ?thesis by (simp add: ex_to_sec_values)
qed

lemma ex_elapsed_short:
  "dmul (ex_to_sec 1000 (Finite 2)) (Finite 1000) = Finite (1152921504606847 / 2 ^ 61)"
proof -
  have "round_double (4722366482869645 / 2 ^ 73 * 1000) = Finite (1152921504606847 / 2 ^ 61)"
    by (rule round_double_pos[where e = "- 11" and n = 4611686018427388])
       (simp_all add: double_eval)
  then show ?thesis by (simp add: ex_to_sec_values)
qed

lemma ex_exact_product_above_threshold:
  "5 < (5764607523034235 / 2 ^ 60 * 1000 :: real)"
  by simp

lemmas ex_defs =
  ex_desc_def ex_session_def ex_mem_def ex_rpc_def ex_connect_req_def
  ex_elapsed_10ms ex_elapsed_5ms ex_elapsed_short

lemmas sm_retry_defs =
  retry_in_flight_def retry_from.simps retry_one_def elapsed_ms_def send_connect_req_one_def
  send_disconnect_req_one_def send_to_def is_session_managed_def add_to_in_flight_def
  remove_from_in_flight_def is_in_flight_def in_flight_req_eq_def Let_def

subsection \<open>Lemmas about the sweep\<close>

lemma send_connect_req_one_Inr:
  "send_connect_req_one s rpc = Inr rpc' \<Longrightarrow>
     rpc' = rpc\<lparr>udp_sent := udp_sent rpc @ [connect_req_dgram rpc s]\<rparr>"
  by (auto simp: send_connect_req_one_def send_to_def connect_req_dgram_def Let_def
      split: if_splits)

lemma retry_one_Inr:
  assumes "retry_one to_sec T cur i rpc = Inr rpc'"
  shows "rpc' = rpc\<lparr>in_flight_vec :=
                      (in_flight_vec rpc)[i := sweep_entry to_sec T cur rpc (in_flight_vec rpc ! i)],
                    udp_sent := udp_sent rpc @ sweep_sent to_sec T cur rpc [in_flight_vec rpc ! i]\<rparr>"
  using assms
  by (auto simp: retry_one_def Let_def sweep_entry_def sweep_sent_def connecting_def
      send_disconnect_req_one_def
      dest!: send_connect_req_one_Inr split: if_splits sum.splits SessionState.splits)

lemma sweep_same:
  assumes "mem r1 = mem rpc" and "freq_ghz r1 = freq_ghz rpc" and "udp_config r1 = udp_config rpc"
  shows "sweep_entry to_sec T cur r1 = sweep_entry to_sec T cur rpc"
    and "sweep_sent to_sec T cur r1 = sweep_sent to_sec T cur rpc"
  using assms
  by (simp_all add: sweep_entry_def sweep_sent_def fun_eq_iff elapsed_ms_def connecting_def
      connect_req_dgram_def)

lemma retry_from_Inr:
  "retry_from to_sec T cur i rpc = Inr rpc' \<Longrightarrow>
     rpc' = rpc\<lparr>in_flight_vec :=
                  take i (in_flight_vec rpc) @
                  map (sweep_entry to_sec T cur rpc) (drop i (in_flight_vec rpc)),
                udp_sent := udp_sent rpc @ sweep_sent to_sec T cur rpc (drop i (in_flight_vec rpc))\<rparr>"
proof (induction to_sec T cur i rpc rule: retry_from.induct)
  case (1 to_sec T cur i rpc)
  show ?case
  proof (cases "i < length (in_flight_vec rpc)")
    case False
    with "1.prems" show ?thesis
      by (subst (asm) retry_from.simps) (simp add: sweep_sent_def)
  next
    case True
    from "1.prems" True obtain r1 where r1: "retry_one to_sec T cur i rpc = Inr r1"
      and rest: "retry_from to_sec T cur (Suc i) r1 = Inr rpc'"
      by (subst (asm) retry_from.simps) (auto split: sum.splits)
    note step = retry_one_Inr[OF r1]
    have frame: "mem r1 = mem rpc" "freq_ghz r1 = freq_ghz rpc" "udp_config r1 = udp_config rpc"
      by (subst step, simp)+
    note same = sweep_same[OF frame]
    have d: "drop i (in_flight_vec rpc) = in_flight_vec rpc ! i # drop (Suc i) (in_flight_vec rpc)"
      using True by (simp add: Cons_nth_drop_Suc)
    have v1: "in_flight_vec r1 =
                (in_flight_vec rpc)[i := sweep_entry to_sec T cur rpc (in_flight_vec rpc ! i)]"
      and s1: "udp_sent r1 = udp_sent rpc @ sweep_sent to_sec T cur rpc [in_flight_vec rpc ! i]"
      by (subst step, simp)+
    have ih: "rpc' = r1\<lparr>in_flight_vec :=
                         take (Suc i) (in_flight_vec r1) @
                         map (sweep_entry to_sec T cur r1) (drop (Suc i) (in_flight_vec r1)),
                       udp_sent := udp_sent r1 @
                         sweep_sent to_sec T cur r1 (drop (Suc i) (in_flight_vec r1))\<rparr>"
      using "1.IH"[OF True r1 rest] .
    have t: "take (Suc i) (in_flight_vec r1) =
               take i (in_flight_vec rpc) @ [sweep_entry to_sec T cur rpc (in_flight_vec rpc ! i)]"
      using True by (simp add: v1 take_Suc_conv_app_nth)
    have dr: "drop (Suc i) (in_flight_vec r1) = drop (Suc i) (in_flight_vec rpc)"
      by (simp add: v1)
    have "rpc' = r1\<lparr>in_flight_vec :=
                     take i (in_flight_vec rpc) @
                     map (sweep_entry to_sec T cur rpc) (drop i (in_flight_vec rpc)),
                   udp_sent := udp_sent rpc @
                     sweep_sent to_sec T cur rpc (drop i (in_flight_vec rpc))\<rparr>"
      by (subst ih) (simp add: same t dr s1 d sweep_sent_def)
    then show ?thesis
      by (subst (asm) step) simp
  qed
qed

lemma retry_in_flight_Inr:
  assumes "retry_in_flight to_sec T cur rpc = Inr rpc'"
  shows "rpc' = rpc\<lparr>in_flight_vec := map (sweep_entry to_sec T cur rpc) (in_flight_vec rpc),
                    udp_sent := udp_sent rpc @ sweep_sent to_sec T cur rpc (in_flight_vec rpc)\<rparr>"
  using assms retry_from_Inr[of to_sec T cur 0 rpc rpc']
  by (simp add: retry_in_flight_def split: if_splits)

lemma concat_sweep_sent:
  "concat (map (\<lambda>req. sweep_sent to_sec T cur rpc [req]) reqs) = sweep_sent to_sec T cur rpc reqs"
  by (induction reqs) (simp_all add: sweep_sent_def)

lemma retry_one_returns:
  assumes "i < length (in_flight_vec rpc)"
    and "sweep_ready to_sec T cur rpc (in_flight_vec rpc ! i)"
  shows "\<exists>rpc'. retry_one to_sec T cur i rpc = Inr rpc'"
  using assms
  by (auto simp: retry_one_def sweep_ready_def connecting_def Let_def send_connect_req_one_def
      send_disconnect_req_one_def split: if_splits)

lemma sweep_ready_same:
  assumes "mem r1 = mem rpc" and "freq_ghz r1 = freq_ghz rpc" and "session_vec r1 = session_vec rpc"
  shows "sweep_ready to_sec T cur r1 = sweep_ready to_sec T cur rpc"
  using assms
  by (simp add: sweep_ready_def fun_eq_iff elapsed_ms_def connecting_def is_session_managed_def)

lemma retry_from_returns:
  "\<forall>j. i \<le> j \<and> j < length (in_flight_vec rpc) \<longrightarrow>
       sweep_ready to_sec T cur rpc (in_flight_vec rpc ! j)
   \<Longrightarrow> \<exists>rpc'. retry_from to_sec T cur i rpc = Inr rpc'"
proof (induction to_sec T cur i rpc rule: retry_from.induct)
  case (1 to_sec T cur i rpc)
  show ?case
  proof (cases "i < length (in_flight_vec rpc)")
    case False
    then show ?thesis by (subst retry_from.simps) simp
  next
    case True
    with "1.prems" obtain r1 where r1: "retry_one to_sec T cur i rpc = Inr r1"
      using retry_one_returns[of i rpc to_sec T cur] by auto
    note step = retry_one_Inr[OF r1]
    have frame: "mem r1 = mem rpc" "freq_ghz r1 = freq_ghz rpc" "session_vec r1 = session_vec rpc"
      by (subst step, simp)+
    have v1: "in_flight_vec r1 =
                (in_flight_vec rpc)[i := sweep_entry to_sec T cur rpc (in_flight_vec rpc ! i)]"
      by (subst step, simp)
    have "\<forall>j. Suc i \<le> j \<and> j < length (in_flight_vec r1) \<longrightarrow>
            sweep_ready to_sec T cur r1 (in_flight_vec r1 ! j)"
      using "1.prems" by (simp add: sweep_ready_same[OF frame] v1)
    from "1.IH"[OF True r1 this] obtain rpc' where "retry_from to_sec T cur (Suc i) r1 = Inr rpc'"
      by blast
    with True r1 show ?thesis by (subst retry_from.simps) simp
  qed
qed

text \<open>
  The sweep returns whenever the list is not empty and every entry meets the conditions
  its iteration asserts.
\<close>

lemma retry_in_flight_returns:
  assumes "in_flight_vec rpc \<noteq> []"
    and "\<forall>req \<in> set (in_flight_vec rpc). sweep_ready to_sec T cur rpc req"
  shows "\<exists>rpc'. retry_in_flight to_sec T cur rpc = Inr rpc'"
  using assms retry_from_returns[of 0 rpc to_sec T cur]
  by (simp add: retry_in_flight_def)

text \<open>The sweep on the example endpoint.\<close>

lemma ex_sweep: "retry_in_flight ex_to_sec (Finite 5) 20000000 (ex_rpc ex_in_flight) = Inr ex_swept"
  by (simp add: sm_retry_defs ex_defs ex_in_flight_def ex_swept_def)

text \<open>
  At the threshold: an entry stamped 10000000 is exactly 5 ms old at cycle 20000000,
  which does not exceed a threshold of 5 ms, and the sweep leaves the endpoint as it is.
\<close>

lemma ex_sweep_at_threshold:
  "retry_in_flight ex_to_sec (Finite 5) 20000000 (ex_rpc [\<lparr>prev_tsc = 10000000, session = 1\<rparr>]) =
     Inr (ex_rpc [\<lparr>prev_tsc = 10000000, session = 1\<rparr>])"
  by (simp add: sm_retry_defs ex_defs)

subsection \<open>Lemmas about the in-flight list\<close>

lemma in_flight_scan_iff: "in_flight_scan s reqs = (s \<in> set (map session reqs))"
  by (induction reqs) auto

lemma filter_other_sessions:
  "s \<notin> set (map session reqs) \<Longrightarrow> filter (\<lambda>req. session req \<noteq> s) reqs = reqs"
  by (induction reqs) auto

lemma filter_unique_session:
  assumes "distinct (map session reqs)" and "s \<in> set (map session reqs)"
  shows "\<exists>before req after. reqs = before @ req # after \<and> session req = s \<and>
           filter (\<lambda>r. session r \<noteq> s) reqs = before @ after"
proof -
  from assms(2) obtain req where "req \<in> set reqs" and s: "session req = s" by auto
  then obtain before after where split: "reqs = before @ req # after"
    by (auto dest: split_list)
  with assms(1) s have "s \<notin> set (map session before)" "s \<notin> set (map session after)"
    by auto
  then have "filter (\<lambda>r. session r \<noteq> s) reqs = before @ after"
    by (simp add: split s filter_other_sessions)
  with split s show ?thesis by blast
qed

lemma remove_from_in_flight_Inr:
  assumes "remove_from_in_flight s rpc = Inr rpc'"
  shows "rpc' = rpc\<lparr>in_flight_vec := filter (\<lambda>req. session req \<noteq> s) (in_flight_vec rpc)\<rparr>"
    and "length (in_flight_vec rpc') = length (in_flight_vec rpc) - 1"
    and "s \<in> set (map session (in_flight_vec rpc))"
  using assms
  by (auto simp: remove_from_in_flight_def in_flight_req_eq_def Let_def is_in_flight_def
      in_flight_scan_iff split: if_splits)

lemma is_in_flight_after_add:
  "add_to_in_flight tsc s rpc = Inr rpc' \<Longrightarrow> is_in_flight rpc' s"
  by (auto simp: add_to_in_flight_def is_in_flight_def in_flight_scan_iff split: if_splits)

lemma not_in_flight_after_remove:
  assumes "remove_from_in_flight s rpc = Inr rpc'"
  shows "\<not> is_in_flight rpc' s"
proof -
  have "in_flight_vec rpc' = filter (\<lambda>req. session req \<noteq> s) (in_flight_vec rpc)"
    by (subst remove_from_in_flight_Inr(1)[OF assms]) simp
  then show ?thesis
    by (auto simp: is_in_flight_def in_flight_scan_iff)
qed

subsection \<open>Lemmas about the nested request test\<close>

lemma plus_one_loop_eq:
  "i \<le> n \<Longrightarrow> length dst = n \<Longrightarrow> length src = n \<Longrightarrow>
     plus_one_loop i n src dst = take i dst @ map (\<lambda>b. b + 1) (drop i src)"
proof (induction i n src dst rule: plus_one_loop.induct)
  case (1 i n src dst)
  show ?case
  proof (cases "i < n")
    case False
    with "1.prems" show ?thesis by (subst plus_one_loop.simps) simp
  next
    case True
    have "plus_one_loop i n src dst = plus_one_loop (Suc i) n src (dst[i := src ! i + 1])"
      using True by (subst plus_one_loop.simps) simp
    also have "\<dots> = take (Suc i) (dst[i := src ! i + 1]) @ map (\<lambda>b. b + 1) (drop (Suc i) src)"
      using "1.IH"[OF True] True "1.prems" by simp
    also have "\<dots> = take i dst @ map (\<lambda>b. b + 1) (drop i src)"
      using True "1.prems"
      by (simp add: take_Suc_conv_app_nth Cons_nth_drop_Suc[symmetric])
    finally show ?thesis .
  qed
qed

lemma plus_one_loop_alloc:
  "length src = n \<Longrightarrow> plus_one_loop 0 n src (alloc_msg_buffer fresh n) = map (\<lambda>b. b + 1) src"
  by (simp add: plus_one_loop_eq alloc_msg_buffer_def)

lemma fill_loop_eq:
  "i \<le> n \<Longrightarrow> n \<le> length buf \<Longrightarrow>
     fill_loop i n b buf = take i buf @ replicate (n - i) b @ drop n buf"
proof (induction i n b buf rule: fill_loop.induct)
  case (1 i n b buf)
  show ?case
  proof (cases "i < n")
    case False
    with "1.prems" show ?thesis by (subst fill_loop.simps) simp
  next
    case True
    have "fill_loop i n b buf = fill_loop (Suc i) n b (buf[i := b])"
      using True by (subst fill_loop.simps) simp
    also have "\<dots> = take (Suc i) (buf[i := b]) @ replicate (n - Suc i) b @ drop n (buf[i := b])"
      using "1.IH"[OF True] True "1.prems" by simp
    also have "\<dots> = take i buf @ replicate (n - i) b @ drop n buf"
    proof -
      have n: "n - i = Suc (n - Suc i)" using True by simp
      show ?thesis using True "1.prems"
        by (simp add: take_Suc_conv_app_nth n)
    qed
    finally show ?thesis .
  qed
qed

lemma check_plus_one_iff:
  "check_plus_one i k req resp = (\<forall>j<k. uint (req ! (i + j)) + 1 = uint (resp ! (i + j)))"
proof (induction k arbitrary: i)
  case 0
  show ?case by simp
next
  case (Suc k)
  show ?case
    by (auto simp: Suc less_Suc_eq_0_disj)
qed

lemma check_plus_three_iff:
  "check_plus_three i k mi resp = (\<forall>j<k. uint (resp ! (i + j)) = uint (ucast mi :: 8 word) + 3)"
proof (induction k arbitrary: i)
  case 0
  show ?case by simp
next
  case (Suc k)
  show ?case
    by (auto simp: Suc less_Suc_eq_0_disj)
qed



lemma unat_ucast_32_64: "unat (ucast (w :: 32 word) :: 64 word) = unat w"
proof -
  have "unat w < 2 ^ 32" using unsigned_less[of w, where 'a = nat] by simp
  then have "unat w < 2 ^ 64" by simp
  then show ?thesis by (simp add: unsigned_ucast_eq take_bit_nat_eq_self)
qed

lemma unat_ucast_64_32: "unat (r :: 64 word) < 2 ^ 32 \<Longrightarrow> unat (ucast r :: 32 word) = unat r"
  by (simp add: unsigned_ucast_eq take_bit_nat_eq_self)

lemma get_rand_msg_size_unat:
  assumes "1 < kMaxMsgSize"
  shows "1 \<le> unat (get_rand_msg_size kMaxMsgSize sample)"
    and "unat (get_rand_msg_size kMaxMsgSize sample) < unat kMaxMsgSize"
    and "unat (get_rand_msg_size kMaxMsgSize sample) < 2 ^ 32"
proof -
  let ?x = "ucast sample :: 64 word"
  let ?r = "?x mod kMaxMsgSize"
  let ?m = "ucast ?r :: 32 word"
  have K: "1 < unat kMaxMsgSize" using assms by (simp add: word_less_nat_alt)
  have x: "unat ?x < 2 ^ 32"
    using unsigned_less[of sample, where 'a = nat] by (simp add: unat_ucast_32_64)
  have r: "unat ?r = unat ?x mod unat kMaxMsgSize" by (simp add: unat_mod)
  have rK: "unat ?r < unat kMaxMsgSize" using K by (simp add: r)
  have "unat ?r \<le> unat ?x" by (simp add: r)
  with x have rx: "unat ?r < 2 ^ 32" by simp
  have trunc: "unat ?m = unat ?r"
    using rx by (rule unat_ucast_64_32)
  have zero: "(?m = 0) = (unat ?r = 0)"
  proof -
    have "(?m = 0) = (unat ?m = 0)" by (simp add: unsigned_eq_0_iff)
    then show ?thesis by (simp only: trunc)
  qed
  have res: "unat (get_rand_msg_size kMaxMsgSize sample) = (if unat ?r = 0 then 1 else unat ?r)"
    by (simp add: get_rand_msg_size_def Let_def zero unat_ucast_32_64 trunc)
  show "1 \<le> unat (get_rand_msg_size kMaxMsgSize sample)" using res by simp
  show "unat (get_rand_msg_size kMaxMsgSize sample) < unat kMaxMsgSize" using res rK K by simp
  show "unat (get_rand_msg_size kMaxMsgSize sample) < 2 ^ 32" using res rx by simp
qed

lemma byte_succ: "uint (b :: 8 word) < 255 \<Longrightarrow> uint (b + 1) = uint b + 1"
  using uint_add_lem[of b 1] by simp

lemma small_byte_sums:
  assumes "uint (b :: 8 word) < 30"
  shows "uint (b + 1) = uint b + 1" and "uint (b + 1 + 1) = uint b + 2"
    and "uint (b + 1 + 1 + 1) = uint b + 3"
proof -
  show 1: "uint (b + 1) = uint b + 1" using assms by (simp add: byte_succ)
  show 2: "uint (b + 1 + 1) = uint b + 2" using assms 1 byte_succ[of "b + 1"] by simp
  show "uint (b + 1 + 1 + 1) = uint b + 3" using assms 2 byte_succ[of "b + 1 + 1"] by simp
qed

lemma fill_byte_small:
  assumes "(mi :: 64 word) < W" and "W < 30"
  shows "uint (ucast mi :: 8 word) < 30"
proof -
  have "unat mi < unat W" "unat W < 30" using assms by (simp_all add: word_less_nat_alt)
  then have "unat mi < 30" by simp
  then have "unat (ucast mi :: 8 word) = unat mi"
    by (simp add: unsigned_ucast_eq take_bit_nat_eq_self)
  moreover have "uint (ucast mi :: 8 word) = int (unat (ucast mi :: 8 word))"
    by (rule uint_nat)
  ultimately show ?thesis using \<open>unat mi < 30\<close> by linarith
qed


lemma ucast_64_32_64: "unat (w :: 64 word) < 2 ^ 32 \<Longrightarrow> (ucast (ucast w :: 32 word) :: 64 word) = w"
  by (rule unsigned_word_eqI[where 'a = nat]) (simp add: unat_ucast_32_64 unat_ucast_64_32)

lemma ucast_64_16_64: "unat (w :: 64 word) < 2 ^ 16 \<Longrightarrow> (ucast (ucast w :: 16 word) :: 64 word) = w"
  by (rule unsigned_word_eqI[where 'a = nat])
     (simp add: unsigned_ucast_eq unsigned_take_bit_eq take_bit_nat_eq_self)

lemma tag_t_of_size_tag: "tag_t_of_size (tag t) = t"
  by (cases t) (simp add: tag_t_of_size_def)

lemma tag_fields:
  "req_i (tag_t_of_fields r m sz) = r"
  "msgbuf_i (tag_t_of_fields r m sz) = m"
  "req_size (tag_t_of_fields r m sz) = sz"
  unfolding req_i_def msgbuf_i_def req_size_def tag_t_of_fields_def
  by (rule bit_word_eqI, auto simp: bit_simps dest: bit_imp_le_length)+

lemma handlers_on_replicate:
  assumes "uint (b :: 8 word) < 30"
  shows "req_handler_cs f1 (replicate n b) =
           \<lparr>req_size_cs = n, req_msgbuf_ss = replicate n (b + 1)\<rparr>"
    and "req_handler_ss f2 (replicate n (b + 1)) = replicate n (b + 1 + 1)"
    and "server_cont_func f3 (replicate n (b + 1 + 1))
           \<lparr>req_size_cs = n, req_msgbuf_ss = replicate n (b + 1)\<rparr> =
         Inr (replicate n (b + 1 + 1 + 1))"
proof -
  show "req_handler_cs f1 (replicate n b) =
           \<lparr>req_size_cs = n, req_msgbuf_ss = replicate n (b + 1)\<rparr>"
    by (simp add: req_handler_cs_def plus_one_loop_alloc)
  show "req_handler_ss f2 (replicate n (b + 1)) = replicate n (b + 1 + 1)"
    by (simp add: req_handler_ss_def plus_one_loop_alloc)
  have "check_plus_one 0 n (replicate n (b + 1)) (replicate n (b + 1 + 1))"
    using small_byte_sums[OF assms] by (simp add: check_plus_one_iff)
  then show "server_cont_func f3 (replicate n (b + 1 + 1))
           \<lparr>req_size_cs = n, req_msgbuf_ss = replicate n (b + 1)\<rparr> =
         Inr (replicate n (b + 1 + 1 + 1))"
    by (simp add: server_cont_func_def plus_one_loop_alloc)
qed

text \<open>
  The bound on the buffer index matters for the assertion of the server continuation:
  a request of one byte 254, which no buffer index of the test produces, reaches
  server 1 as 255 and comes back as 0, and \<open>255 + 1 == 0\<close> fails in \<open>int\<close>.
\<close>

lemma server_cont_func_rejects_wrapped_sum:
  "server_cont_func f3 (req_handler_ss f2 (req_msgbuf_ss (req_handler_cs f1 [254])))
     (req_handler_cs f1 [254]) = Inl AssertionFailed"
  by (simp add: req_handler_cs_def req_handler_ss_def server_cont_func_def plus_one_loop_alloc)

subsection \<open>Lemmas about the wheel and the rate test\<close>

lemma length_concat_append_at:
  "i < length xss \<Longrightarrow> length (concat (xss[i := xss ! i @ [e]])) = Suc (length (concat xss))"
proof (induction xss arbitrary: i)
  case Nil
  then show ?case by simp
next
  case (Cons xs xss)
  then show ?case by (cases i) simp_all
qed

lemma wheel_insert_effect:
  assumes "buckets wh \<noteq> []"
  shows "in_wheel (wheel_insert e t wh) = Suc (in_wheel wh)"
    and "ready_queue (wheel_insert e t wh) = ready_queue wh"
    and "buckets (wheel_insert e t wh) \<noteq> []"
    and "wslot_width_tsc (wheel_insert e t wh) = wslot_width_tsc wh"
  using assms
  by (auto simp: wheel_insert_def in_wheel_def Let_def length_concat_append_at)

lemma reap_bucket_effect:
  assumes "buckets wh \<noteq> []"
  shows "in_wheel (reap_bucket wh) + length (ready_queue (reap_bucket wh)) =
           in_wheel wh + length (ready_queue wh)"
    and "buckets (reap_bucket wh) \<noteq> []"
  using assms
  by (auto simp: reap_bucket_def in_wheel_def split: list.splits)

lemma reap_effect:
  "buckets wh \<noteq> [] \<Longrightarrow>
     in_wheel (reap now wh) + length (ready_queue (reap now wh)) =
       in_wheel wh + length (ready_queue wh) \<and>
     buckets (reap now wh) \<noteq> [] \<and>
     wslot_width_tsc (reap now wh) = wslot_width_tsc wh"
proof (induction now wh rule: reap.induct)
  case (1 now wh)
  show ?case
  proof (cases "0 < wslot_width_tsc wh \<and> base_tsc wh + wslot_width_tsc wh \<le> now")
    case False
    then have "reap now wh = wh" by (subst reap.simps) (simp only: if_False)
    then show ?thesis using "1.prems" by simp
  next
    case True
    have eq: "reap now wh = reap now (reap_bucket wh)"
      using True by (subst reap.simps) simp
    note b = reap_bucket_effect[OF "1.prems"]
    from "1.IH"[OF True b(2)] b(1) show ?thesis
      by (simp add: eq reap_bucket_time)
  qed
qed

lemma send_one_window_effect:
  "buckets (wheel st) \<noteq> [] \<Longrightarrow>
     in_wheel (wheel (send_one_window k cpp st)) = in_wheel (wheel st) + k \<and>
     ready_queue (wheel (send_one_window k cpp st)) = ready_queue (wheel st) \<and>
     buckets (wheel (send_one_window k cpp st)) \<noteq> [] \<and>
     wslot_width_tsc (wheel (send_one_window k cpp st)) = wslot_width_tsc (wheel st) \<and>
     num_pkts_sent (send_one_window k cpp st) = num_pkts_sent st"
proof (induction k arbitrary: st)
  case 0
  then show ?case by simp
next
  case (Suc k)
  let ?st1 = "st\<lparr>wheel := wheel_insert dummy_ent (unat (last_tsc st)) (wheel st),
                   last_tsc := last_tsc st + cpp\<rparr>"
  note w = wheel_insert_effect[OF Suc.prems, of dummy_ent "unat (last_tsc st)"]
  have "buckets (wheel ?st1) \<noteq> []" using w(3) by simp
  from Suc.IH[OF this] w show ?case by simp
qed

lemma send_more_effect:
  "buckets (wheel st) \<noteq> [] \<Longrightarrow> k \<le> length (ready_queue (wheel st)) \<Longrightarrow>
     \<exists>st'. send_more k cpp st = Inr st' \<and>
       in_wheel (wheel st') = in_wheel (wheel st) + k \<and>
       length (ready_queue (wheel st')) = length (ready_queue (wheel st)) - k \<and>
       buckets (wheel st') \<noteq> [] \<and>
       wslot_width_tsc (wheel st') = wslot_width_tsc (wheel st)"
proof (induction k arbitrary: st)
  case 0
  then show ?case by simp
next
  case (Suc k)
  let ?wh = "wheel_insert dummy_ent (unat (last_tsc st)) (wheel st)"
  note w = wheel_insert_effect[OF Suc.prems(1), of dummy_ent "unat (last_tsc st)"]
  have "ready_queue ?wh \<noteq> []" using Suc.prems(2) w(2) by auto
  then obtain e q where q: "ready_queue ?wh = e # q"
    by (metis neq_Nil_conv)
  have rq: "ready_queue (wheel st) = e # q" using w(2) q by simp
  let ?st1 = "st\<lparr>wheel := ?wh\<lparr>ready_queue := q\<rparr>, last_tsc := last_tsc st + cpp\<rparr>"
  have b1: "buckets (wheel ?st1) \<noteq> []" using w(3) by simp
  have l1: "k \<le> length (ready_queue (wheel ?st1))"
    using Suc.prems(2) by (simp add: rq)
  have i1: "in_wheel (wheel ?st1) = Suc (in_wheel (wheel st))"
    using w(1) by (simp add: in_wheel_def)
  have r1: "length (ready_queue (wheel ?st1)) = length (ready_queue (wheel st)) - 1"
    by (simp add: rq)
  from Suc.IH[OF b1 l1] obtain st' where st': "send_more k cpp ?st1 = Inr st'"
      "in_wheel (wheel st') = in_wheel (wheel ?st1) + k"
      "length (ready_queue (wheel st')) = length (ready_queue (wheel ?st1)) - k"
      "buckets (wheel st') \<noteq> []"
      "wslot_width_tsc (wheel st') = wslot_width_tsc (wheel ?st1)"
    by blast
  have "send_more (Suc k) cpp st = Inr st'"
    using st'(1) q by (simp add: Let_def)
  moreover have "in_wheel (wheel st') = in_wheel (wheel st) + Suc k"
    using st'(2) i1 by simp
  moreover have "length (ready_queue (wheel st')) = length (ready_queue (wheel st)) - Suc k"
    using st'(3) r1 by simp
  moreover have "wslot_width_tsc (wheel st') = wslot_width_tsc (wheel st)"
    using st'(5) w(4) by simp
  ultimately show ?case using st'(4) by blast
qed


lemma send_one_window_num_pkts_sent:
  "num_pkts_sent (send_one_window k cpp st) = num_pkts_sent st"
  by (induction k arbitrary: st) simp_all

lemma first_window_in_wheel:
  assumes "0 < B"
  shows "window_in_wheel C (send_one_window C cpp (rate_test_start B w t0 start))"
proof -
  let ?st = "rate_test_start B w t0 start"
  have ne: "buckets (wheel ?st) \<noteq> []"
    using assms by (simp add: rate_test_start_def TimingWheel_init_def)
  have "in_wheel (wheel ?st) = 0" "ready_queue (wheel ?st) = []"
    by (simp_all add: rate_test_start_def TimingWheel_init_def in_wheel_def)
  with send_one_window_effect[OF ne, of C cpp] show ?thesis
    by (simp add: window_in_wheel_def)
qed

lemma transmit_step_effect:
  assumes "window_in_wheel C st"
  shows "length (ready_queue (reap (unat now) (wheel st))) \<le> C \<and>
         (\<exists>st'. transmit_step now cpp st = Inr st' \<and>
            in_wheel (wheel st') =
              in_wheel (reap (unat now) (wheel st)) +
              length (ready_queue (reap (unat now) (wheel st))) \<and>
            ready_queue (wheel st') = [] \<and>
            window_in_wheel C st')"
proof -
  let ?wh = "reap (unat now) (wheel st)"
  let ?n = "length (ready_queue ?wh)"
  from assms have ne: "buckets (wheel st) \<noteq> []" and c: "in_wheel (wheel st) = C"
    and e: "ready_queue (wheel st) = []"
    by (simp_all add: window_in_wheel_def)
  from reap_effect[OF ne, of "unat now"] c e
  have total: "in_wheel ?wh + ?n = C" and ne': "buckets ?wh \<noteq> []"
    by simp_all
  then have le: "?n \<le> C" by simp
  show ?thesis
  proof (cases "0 < ?n")
    case False
    then have "transmit_step now cpp st = Inr (st\<lparr>wheel := ?wh\<rparr>)"
      by (simp add: transmit_step_def Let_def)
    moreover have "window_in_wheel C (st\<lparr>wheel := ?wh\<rparr>)"
      using total ne' False by (simp add: window_in_wheel_def)
    ultimately show ?thesis using le False by simp
  next
    case True
    let ?st1 = "st\<lparr>wheel := ?wh, num_pkts_sent := num_pkts_sent st + of_nat ?n\<rparr>"
    have step: "transmit_step now cpp st = send_more ?n cpp ?st1"
      using True by (simp add: transmit_step_def Let_def)
    have "buckets (wheel ?st1) \<noteq> []" "?n \<le> length (ready_queue (wheel ?st1))"
      using ne' by simp_all
    from send_more_effect[OF this, of cpp] obtain st' where st':
      "send_more ?n cpp ?st1 = Inr st'"
      "in_wheel (wheel st') = in_wheel ?wh + ?n"
      "length (ready_queue (wheel st')) = ?n - ?n"
      "buckets (wheel st') \<noteq> []"
      by auto
    have "window_in_wheel C st'"
      using st'(2,3,4) total by (simp add: window_in_wheel_def)
    with st' step le show ?thesis by simp
  qed
qed

lemma transmit_loop_window:
  "window_in_wheel C st \<Longrightarrow>
     \<exists>st'. transmit_loop clock cpp st = Inr st' \<and> window_in_wheel C st'"
proof (induction clock arbitrary: st)
  case Nil
  then show ?case by simp
next
  case (Cons now clock)
  show ?case
  proof (cases "num_pkts_sent st < num_pkts")
    case False
    with Cons.prems show ?thesis by simp
  next
    case True
    from transmit_step_effect[OF Cons.prems, of now cpp] obtain st1
      where st1: "transmit_step now cpp st = Inr st1" "window_in_wheel C st1"
      by blast
    from Cons.IH[OF st1(2)] obtain st' where
      "transmit_loop clock cpp st1 = Inr st'" "window_in_wheel C st'"
      by blast
    with True st1(1) show ?thesis by simp
  qed
qed

section \<open>Properties of the session management code\<close>

text \<open>
  C1. Let the sweep \<open>retry_in_flight\<close> return, and let \<open>outs ! i\<close> be the datagrams sent
  by its iteration on entry \<open>i\<close> (the datagrams of the sweep are their concatenation,
  appended to those sent before). For every entry whose session is in
  connect-in-progress or disconnect-wait-for-connect: if the elapsed time since the
  entry's last-send timestamp exceeds \<open>kSessionMgmtRetransMs\<close>, the iteration sends
  exactly the connect-req of the session and sets the entry's timestamp to the current
  time; otherwise it sends nothing and leaves the entry as it is. The elapsed time is
  the one the code computes: the seconds \<open>to_sec\<close> gives for the cycles from the entry's
  timestamp to the current one (a 64-bit difference), times 1000, as a product of
  \<open>double\<close>s; it exceeds the threshold when the comparison of \<open>double\<close>s says so.
\<close>

theorem retry_in_flight_connect_resend:
  assumes "retry_in_flight to_sec kSessionMgmtRetransMs cur_tsc rpc = Inr rpc'"
  shows "\<exists>outs. length outs = length (in_flight_vec rpc) \<and>
           udp_sent rpc' = udp_sent rpc @ concat outs \<and>
           (\<forall>i < length (in_flight_vec rpc).
              state (mem rpc (session (in_flight_vec rpc ! i))) = kConnectInProgress \<or>
              state (mem rpc (session (in_flight_vec rpc ! i))) = kDisconnectWaitForConnect \<longrightarrow>
                (if dgt (dmul (to_sec (cur_tsc - prev_tsc (in_flight_vec rpc ! i)) (freq_ghz rpc))
                         (Finite 1000))
                       kSessionMgmtRetransMs
                 then outs ! i =
                        [(hostname (server (mem rpc (session (in_flight_vec rpc ! i)))),
                          udp_config rpc,
                          \<lparr>pkt_type = kConnectReq,
                           pkt_client = client (mem rpc (session (in_flight_vec rpc ! i))),
                           pkt_server = server (mem rpc (session (in_flight_vec rpc ! i)))\<rparr>)] \<and>
                      in_flight_vec rpc' ! i = (in_flight_vec rpc ! i)\<lparr>prev_tsc := cur_tsc\<rparr>
                 else outs ! i = [] \<and> in_flight_vec rpc' ! i = in_flight_vec rpc ! i))"
proof -
  let ?T = kSessionMgmtRetransMs
  let ?outs = "map (\<lambda>req. sweep_sent to_sec ?T cur_tsc rpc [req]) (in_flight_vec rpc)"
  note eq = retry_in_flight_Inr[OF assms]
  have v: "in_flight_vec rpc' = map (sweep_entry to_sec ?T cur_tsc rpc) (in_flight_vec rpc)"
    and u: "udp_sent rpc' = udp_sent rpc @ sweep_sent to_sec ?T cur_tsc rpc (in_flight_vec rpc)"
    by (subst eq, simp)+
  have "length ?outs = length (in_flight_vec rpc)" by simp
  moreover have "udp_sent rpc' = udp_sent rpc @ concat ?outs"
    by (simp only: concat_sweep_sent u)
  moreover have "\<forall>i < length (in_flight_vec rpc).
              state (mem rpc (session (in_flight_vec rpc ! i))) = kConnectInProgress \<or>
              state (mem rpc (session (in_flight_vec rpc ! i))) = kDisconnectWaitForConnect \<longrightarrow>
                (if dgt (dmul (to_sec (cur_tsc - prev_tsc (in_flight_vec rpc ! i)) (freq_ghz rpc))
                         (Finite 1000))
                       kSessionMgmtRetransMs
                 then ?outs ! i =
                        [(hostname (server (mem rpc (session (in_flight_vec rpc ! i)))),
                          udp_config rpc,
                          \<lparr>pkt_type = kConnectReq,
                           pkt_client = client (mem rpc (session (in_flight_vec rpc ! i))),
                           pkt_server = server (mem rpc (session (in_flight_vec rpc ! i)))\<rparr>)] \<and>
                      in_flight_vec rpc' ! i = (in_flight_vec rpc ! i)\<lparr>prev_tsc := cur_tsc\<rparr>
                 else ?outs ! i = [] \<and> in_flight_vec rpc' ! i = in_flight_vec rpc ! i)"
    by (simp add: v sweep_sent_def sweep_entry_def connecting_def connect_req_dgram_def
        elapsed_ms_def)
  ultimately show ?thesis by blast
qed

theorem retry_in_flight_connect_resend_witness:
  "(\<exists>outs. length outs = 3 \<and> udp_sent ex_swept = concat outs \<and>
      outs ! 0 = [ex_connect_req] \<and>
      in_flight_vec ex_swept ! 0 = \<lparr>prev_tsc = 20000000, session = 1\<rparr> \<and>
      outs ! 2 = [] \<and> in_flight_vec ex_swept ! 2 = \<lparr>prev_tsc = 19999000, session = 3\<rparr>) \<and>
   dmul (ex_to_sec (20000000 - 10000000) (Finite 2)) (Finite 1000) = Finite 5 \<and>
   (\<exists>outs. length outs = 1 \<and>
      udp_sent (ex_rpc [\<lparr>prev_tsc = 10000000, session = 1\<rparr>]) = concat outs \<and>
      outs ! 0 = [] \<and>
      in_flight_vec (ex_rpc [\<lparr>prev_tsc = 10000000, session = 1\<rparr>]) ! 0 =
        \<lparr>prev_tsc = 10000000, session = 1\<rparr>)"
proof (intro conjI)
  show "\<exists>outs. length outs = 3 \<and> udp_sent ex_swept = concat outs \<and>
      outs ! 0 = [ex_connect_req] \<and>
      in_flight_vec ex_swept ! 0 = \<lparr>prev_tsc = 20000000, session = 1\<rparr> \<and>
      outs ! 2 = [] \<and> in_flight_vec ex_swept ! 2 = \<lparr>prev_tsc = 19999000, session = 3\<rparr>"
    using retry_in_flight_connect_resend[OF ex_sweep]
    apply (elim exE conjE)
    apply (rule_tac x = outs in exI)
    apply (frule_tac x = 0 in spec)
    apply (drule_tac x = 2 in spec)
    apply (simp add: ex_defs ex_in_flight_def ex_swept_def)
    done
  show "dmul (ex_to_sec (20000000 - 10000000) (Finite 2)) (Finite 1000) = Finite 5"
    by (simp add: ex_elapsed_5ms)
  show "\<exists>outs. length outs = 1 \<and>
      udp_sent (ex_rpc [\<lparr>prev_tsc = 10000000, session = 1\<rparr>]) = concat outs \<and>
      outs ! 0 = [] \<and>
      in_flight_vec (ex_rpc [\<lparr>prev_tsc = 10000000, session = 1\<rparr>]) ! 0 =
        \<lparr>prev_tsc = 10000000, session = 1\<rparr>"
    using retry_in_flight_connect_resend[OF ex_sweep_at_threshold]
    apply (elim exE conjE)
    apply (rule_tac x = outs in exI)
    apply (drule_tac x = 0 in spec)
    apply (simp add: ex_defs)
    done
qed

text \<open>
  C3. When the sweep \<open>retry_in_flight\<close> returns, every session object is as it was: its
  state, its role and its client and server descriptors are unchanged. Of the endpoint,
  only the in-flight list and the sequence of sent datagrams can differ; the list keeps
  its length, and each entry is either untouched or, when its elapsed time exceeds the
  threshold, differs from the old one in \<open>prev_tsc\<close> only, which is the current time.
\<close>

theorem retry_in_flight_frame:
  assumes "retry_in_flight to_sec kSessionMgmtRetransMs cur_tsc rpc = Inr rpc'"
  shows "(\<forall>s. state (mem rpc' s) = state (mem rpc s) \<and> role (mem rpc' s) = role (mem rpc s) \<and>
              client (mem rpc' s) = client (mem rpc s) \<and> server (mem rpc' s) = server (mem rpc s)) \<and>
         rpc'\<lparr>in_flight_vec := in_flight_vec rpc, udp_sent := udp_sent rpc\<rparr> = rpc \<and>
         length (in_flight_vec rpc') = length (in_flight_vec rpc) \<and>
         (\<forall>i < length (in_flight_vec rpc).
            in_flight_vec rpc' ! i =
              (if dgt (elapsed_ms to_sec rpc cur_tsc (in_flight_vec rpc ! i)) kSessionMgmtRetransMs
               then (in_flight_vec rpc ! i)\<lparr>prev_tsc := cur_tsc\<rparr>
               else in_flight_vec rpc ! i))"
  by (subst retry_in_flight_Inr[OF assms])+ (simp add: sweep_entry_def)

theorem retry_in_flight_frame_witness:
  "state (mem ex_swept 1) = kConnectInProgress \<and> state (mem ex_swept 2) = kDisconnectInProgress \<and>
   role (mem ex_swept 1) = kClient \<and> server (mem ex_swept 1) = ex_desc ''server'' \<and>
   ex_swept\<lparr>in_flight_vec := ex_in_flight, udp_sent := []\<rparr> = ex_rpc ex_in_flight \<and>
   length (in_flight_vec ex_swept) = 3 \<and>
   in_flight_vec ex_swept ! 1 = \<lparr>prev_tsc = 20000000, session = 2\<rparr> \<and>
   in_flight_vec ex_swept ! 2 = \<lparr>prev_tsc = 19999000, session = 3\<rparr>"
  using retry_in_flight_frame[OF ex_sweep]
  apply (elim conjE)
  apply (frule_tac x = 1 in spec)
  apply (drule_tac x = 2 in spec)
  apply (simp add: ex_defs ex_in_flight_def elapsed_ms_def)
  done

text \<open>
  C7. For a managed client session in connect-in-progress or
  disconnect-wait-for-connect, \<open>send_connect_req_one\<close> returns after handing exactly one
  datagram to the management channel: a packet of kind connect-req whose client and
  server descriptors are those of the session, addressed to the hostname of the
  session's server descriptor. Nothing else of the endpoint changes.
\<close>

theorem send_connect_req_one_packet:
  assumes "s \<noteq> nullptr" and "is_session_managed rpc s" and "role (mem rpc s) = kClient"
    and "state (mem rpc s) = kConnectInProgress \<or> state (mem rpc s) = kDisconnectWaitForConnect"
  shows "send_connect_req_one s rpc =
           Inr (rpc\<lparr>udp_sent := udp_sent rpc @
                  [(hostname (server (mem rpc s)), udp_config rpc,
                    \<lparr>pkt_type = kConnectReq,
                     pkt_client = client (mem rpc s),
                     pkt_server = server (mem rpc s)\<rparr>)]\<rparr>)"
  using assms by (auto simp: send_connect_req_one_def send_to_def)

theorem send_connect_req_one_packet_witness:
  "send_connect_req_one 3 (ex_rpc ex_in_flight) =
     Inr ((ex_rpc ex_in_flight)\<lparr>udp_sent :=
            [(''server'', 31850,
              \<lparr>pkt_type = kConnectReq, pkt_client = ex_desc ''client'',
                 pkt_server = ex_desc ''server''\<rparr>)]\<rparr>)"
  using send_connect_req_one_packet[of 3 "ex_rpc ex_in_flight"]
  by (simp add: ex_defs is_session_managed_def)

text \<open>
  C4. Let \<open>s\<close> be a managed client session with no entry in the in-flight list. Then
  \<open>add_to_in_flight\<close> returns, and \<open>is_in_flight\<close> is true in the resulting endpoint;
  \<open>remove_from_in_flight\<close> on that endpoint returns, \<open>is_in_flight\<close> is false afterwards,
  and the in-flight list (indeed the whole endpoint) is the original one.
\<close>

theorem add_remove_in_flight_roundtrip:
  assumes "s \<noteq> nullptr" and "is_session_managed rpc s" and "role (mem rpc s) = kClient"
    and "s \<notin> set (map session (in_flight_vec rpc))"
  shows "\<exists>rpc1. add_to_in_flight tsc s rpc = Inr rpc1 \<and> is_in_flight rpc1 s \<and>
           (\<exists>rpc2. remove_from_in_flight s rpc1 = Inr rpc2 \<and> \<not> is_in_flight rpc2 s \<and>
              in_flight_vec rpc2 = in_flight_vec rpc \<and> rpc2 = rpc)"
proof -
  let ?rpc1 = "rpc\<lparr>in_flight_vec := in_flight_vec rpc @ [\<lparr>prev_tsc = tsc, session = s\<rparr>]\<rparr>"
  have add: "add_to_in_flight tsc s rpc = Inr ?rpc1"
    using assms by (simp add: add_to_in_flight_def in_flight_scan_iff)
  have in1: "is_in_flight ?rpc1 s"
    by (simp add: is_in_flight_def in_flight_scan_iff)
  have managed1: "is_session_managed ?rpc1 s"
    using assms(2) by (simp add: is_session_managed_def)
  have rem: "remove_from_in_flight s ?rpc1 = Inr rpc"
    using assms(1,4) managed1 in1
    by (simp add: remove_from_in_flight_def in_flight_req_eq_def filter_other_sessions Let_def)
  have out2: "\<not> is_in_flight rpc s"
    using assms(4) by (simp add: is_in_flight_def in_flight_scan_iff)
  from add in1 rem out2 show ?thesis by simp
qed

theorem add_remove_in_flight_roundtrip_witness:
  "\<exists>rpc1. add_to_in_flight 42 3 (ex_rpc [\<lparr>prev_tsc = 7, session = 1\<rparr>]) = Inr rpc1 \<and>
      is_in_flight rpc1 3 \<and>
      (\<exists>rpc2. remove_from_in_flight 3 rpc1 = Inr rpc2 \<and> \<not> is_in_flight rpc2 3 \<and>
         in_flight_vec rpc2 = [\<lparr>prev_tsc = 7, session = 1\<rparr>] \<and>
         rpc2 = ex_rpc [\<lparr>prev_tsc = 7, session = 1\<rparr>])"
  using add_remove_in_flight_roundtrip[of 3 "ex_rpc [\<lparr>prev_tsc = 7, session = 1\<rparr>]" 42]
  by (simp add: ex_defs is_session_managed_def)

text \<open>
  C10. Let no session have two entries in the in-flight list. If \<open>add_to_in_flight\<close>
  returns, the session had no entry, one entry for it has been appended, and still no
  session has two entries. If \<open>remove_from_in_flight\<close> returns, exactly one element, the
  entry of the session, has been taken out, the list is shorter by exactly 1, and
  still no session has two entries; and it does return for every managed session that
  is in flight, so that its final assertion on the size cannot fail. If the sweep
  \<open>retry_in_flight\<close> returns, the sessions of the list are the same, in the same order.
\<close>

theorem in_flight_sessions_distinct:
  assumes "distinct (map session (in_flight_vec rpc))"
  shows "(add_to_in_flight tsc s rpc = Inr rpc1 \<longrightarrow>
            s \<notin> set (map session (in_flight_vec rpc)) \<and>
            in_flight_vec rpc1 = in_flight_vec rpc @ [\<lparr>prev_tsc = tsc, session = s\<rparr>] \<and>
            distinct (map session (in_flight_vec rpc1))) \<and>
         (remove_from_in_flight s rpc = Inr rpc2 \<longrightarrow>
            (\<exists>before req after. in_flight_vec rpc = before @ req # after \<and> session req = s \<and>
               in_flight_vec rpc2 = before @ after) \<and>
            length (in_flight_vec rpc2) + 1 = length (in_flight_vec rpc) \<and>
            distinct (map session (in_flight_vec rpc2))) \<and>
         (s \<noteq> nullptr \<and> is_session_managed rpc s \<and> is_in_flight rpc s \<longrightarrow>
            (\<exists>r. remove_from_in_flight s rpc = Inr r)) \<and>
         (retry_in_flight to_sec kSessionMgmtRetransMs cur_tsc rpc = Inr rpc3 \<longrightarrow>
            map session (in_flight_vec rpc3) = map session (in_flight_vec rpc) \<and>
            distinct (map session (in_flight_vec rpc3)))"
proof (intro conjI impI)
  assume "add_to_in_flight tsc s rpc = Inr rpc1"
  then have "s \<notin> set (map session (in_flight_vec rpc)) \<and>
      in_flight_vec rpc1 = in_flight_vec rpc @ [\<lparr>prev_tsc = tsc, session = s\<rparr>]"
    by (auto simp: add_to_in_flight_def in_flight_scan_iff split: if_splits)
  then show "s \<notin> set (map session (in_flight_vec rpc))"
    and "in_flight_vec rpc1 = in_flight_vec rpc @ [\<lparr>prev_tsc = tsc, session = s\<rparr>]"
    and "distinct (map session (in_flight_vec rpc1))"
    using assms by auto
next
  assume run: "remove_from_in_flight s rpc = Inr rpc2"
  note r = remove_from_in_flight_Inr[OF run]
  have v2: "in_flight_vec rpc2 = filter (\<lambda>req. session req \<noteq> s) (in_flight_vec rpc)"
    by (subst r(1)) simp
  from filter_unique_session[OF assms r(3)] obtain before req after
    where split: "in_flight_vec rpc = before @ req # after" "session req = s"
      "filter (\<lambda>r. session r \<noteq> s) (in_flight_vec rpc) = before @ after"
    by blast
  have v2': "in_flight_vec rpc2 = before @ after"
    by (simp only: v2 split(3))
  have d: "distinct (map session (before @ req # after))"
    using assms by (simp only: split(1))
  show "distinct (map session (in_flight_vec rpc2))"
    using d by (simp add: v2')
  show "length (in_flight_vec rpc2) + 1 = length (in_flight_vec rpc)"
    by (simp add: v2' split(1))
  show "\<exists>before req after. in_flight_vec rpc = before @ req # after \<and> session req = s \<and>
          in_flight_vec rpc2 = before @ after"
    using split(1,2) v2' by blast
next
  assume pre: "s \<noteq> nullptr \<and> is_session_managed rpc s \<and> is_in_flight rpc s"
  then have "s \<in> set (map session (in_flight_vec rpc))"
    by (simp add: is_in_flight_def in_flight_scan_iff)
  from filter_unique_session[OF assms this] obtain before req after
    where split: "in_flight_vec rpc = before @ req # after"
      "filter (\<lambda>r. session r \<noteq> s) (in_flight_vec rpc) = before @ after"
    by blast
  have "length (filter (\<lambda>r. session r \<noteq> s) (in_flight_vec rpc)) = length (before @ after)"
    by (simp only: split(2))
  also have "\<dots> = length (in_flight_vec rpc) - 1"
    by (simp add: split(1))
  finally have "length (filter (\<lambda>r. session r \<noteq> s) (in_flight_vec rpc)) =
      length (in_flight_vec rpc) - 1" .
  with pre show "\<exists>r. remove_from_in_flight s rpc = Inr r"
    by (simp add: remove_from_in_flight_def in_flight_req_eq_def Let_def)
next
  assume run: "retry_in_flight to_sec kSessionMgmtRetransMs cur_tsc rpc = Inr rpc3"
  show same: "map session (in_flight_vec rpc3) = map session (in_flight_vec rpc)"
    by (subst retry_in_flight_Inr[OF run]) (simp add: sweep_entry_def comp_def)
  show "distinct (map session (in_flight_vec rpc3))"
    using assms by (simp only: same)
qed

theorem in_flight_sessions_distinct_witness:
  "distinct (map session ex_in_flight) \<and>
   add_to_in_flight 42 3 (ex_rpc [\<lparr>prev_tsc = 7, session = 1\<rparr>]) =
     Inr (ex_rpc [\<lparr>prev_tsc = 7, session = 1\<rparr>, \<lparr>prev_tsc = 42, session = 3\<rparr>]) \<and>
   distinct (map session (in_flight_vec
     (ex_rpc [\<lparr>prev_tsc = 7, session = 1\<rparr>, \<lparr>prev_tsc = 42, session = 3\<rparr>]))) \<and>
   remove_from_in_flight 2 (ex_rpc ex_in_flight) =
     Inr (ex_rpc [\<lparr>prev_tsc = 0, session = 1\<rparr>, \<lparr>prev_tsc = 19999000, session = 3\<rparr>]) \<and>
   length (in_flight_vec
     (ex_rpc [\<lparr>prev_tsc = 0, session = 1\<rparr>, \<lparr>prev_tsc = 19999000, session = 3\<rparr>])) + 1 =
     length (in_flight_vec (ex_rpc ex_in_flight)) \<and>
   (\<exists>r. remove_from_in_flight 2 (ex_rpc ex_in_flight) = Inr r) \<and>
   map session (in_flight_vec ex_swept) = [1, 2, 3] \<and>
   distinct (map session (in_flight_vec ex_swept))"
proof -
  have add: "add_to_in_flight 42 3 (ex_rpc [\<lparr>prev_tsc = 7, session = 1\<rparr>]) =
     Inr (ex_rpc [\<lparr>prev_tsc = 7, session = 1\<rparr>, \<lparr>prev_tsc = 42, session = 3\<rparr>])"
    by (simp add: sm_retry_defs ex_defs)
  have rem: "remove_from_in_flight 2 (ex_rpc ex_in_flight) =
     Inr (ex_rpc [\<lparr>prev_tsc = 0, session = 1\<rparr>, \<lparr>prev_tsc = 19999000, session = 3\<rparr>])"
    by (simp add: sm_retry_defs ex_defs ex_in_flight_def)
  have d1: "distinct (map session (in_flight_vec (ex_rpc [\<lparr>prev_tsc = 7, session = 1\<rparr>])))"
    and d2: "distinct (map session (in_flight_vec (ex_rpc ex_in_flight)))"
    by (simp_all add: ex_rpc_def ex_in_flight_def)
  have pre: "(2::nat) \<noteq> nullptr \<and> is_session_managed (ex_rpc ex_in_flight) 2 \<and>
      is_in_flight (ex_rpc ex_in_flight) 2"
    by (simp add: sm_retry_defs ex_defs ex_in_flight_def)
  from in_flight_sessions_distinct[OF d1, of 42 3 _ _ ex_to_sec "Finite 5" 0] add
  have a: "distinct (map session (in_flight_vec
     (ex_rpc [\<lparr>prev_tsc = 7, session = 1\<rparr>, \<lparr>prev_tsc = 42, session = 3\<rparr>])))"
    by blast
  from in_flight_sessions_distinct[OF d2, of _ 2 _ _ ex_to_sec "Finite 5" 20000000 ex_swept] rem pre ex_sweep
  have b: "length (in_flight_vec
     (ex_rpc [\<lparr>prev_tsc = 0, session = 1\<rparr>, \<lparr>prev_tsc = 19999000, session = 3\<rparr>])) + 1 =
     length (in_flight_vec (ex_rpc ex_in_flight))"
    and c: "\<exists>r. remove_from_in_flight 2 (ex_rpc ex_in_flight) = Inr r"
    and e: "map session (in_flight_vec ex_swept) = map session (in_flight_vec (ex_rpc ex_in_flight))"
    and f: "distinct (map session (in_flight_vec ex_swept))"
    by blast+
  from e have e': "map session (in_flight_vec ex_swept) = [1, 2, 3]"
    by (simp add: ex_rpc_def ex_in_flight_def)
  from d2 have d2': "distinct (map session ex_in_flight)"
    by (simp add: ex_rpc_def)
  from d2' add a rem b c e' f show ?thesis by blast
qed

text \<open>
  C2 (what the code does). The sweep on an endpoint whose only in-flight entry belongs
  to the session at address 2, which is in disconnect-in-progress, 10 ms after the
  entry's last send and with a threshold of 5 ms: the sweep returns, the entry is
  stamped with the current time, and no datagram has been sent, since
  \<open>send_disconnect_req_one\<close> has an empty body.
\<close>

theorem retry_in_flight_disconnect_sends_nothing:
  "state (ex_mem 2) = kDisconnectInProgress \<and>
   elapsed_ms ex_to_sec (ex_rpc [\<lparr>prev_tsc = 0, session = 2\<rparr>]) 20000000
     \<lparr>prev_tsc = 0, session = 2\<rparr> = Finite 10 \<and>
   retry_in_flight ex_to_sec (Finite 5) 20000000 (ex_rpc [\<lparr>prev_tsc = 0, session = 2\<rparr>]) =
     Inr (ex_rpc [\<lparr>prev_tsc = 20000000, session = 2\<rparr>]) \<and>
   udp_sent (ex_rpc [\<lparr>prev_tsc = 20000000, session = 2\<rparr>]) = []"
  by (simp add: sm_retry_defs ex_defs)

section \<open>Properties of the nested request test\<close>

text \<open>
  C6. Let \<open>client_request_helper\<close> return the request \<open>req\<close> and the tag \<open>t\<close> for the buffer
  index \<open>msgbuf_i\<close>, where the window \<open>kSessionReqWindow\<close> is below the number of
  requests of the test, 30, as the static assertion demands, and the buffer has been
  allocated with \<open>kMaxMsgSize\<close> bytes. Then every byte of \<open>req\<close> is the fill byte
  \<open>(uint8_t)msgbuf_i\<close>, and the three hops (server 0 forwards the request plus one,
  server 1 answers with its request plus one, the continuation of server 0 builds the
  response plus one, each buffer delivered as it was sent) end in a response to the
  client of the same length whose every byte is \<open>(uint8_t)msgbuf_i + 3\<close> modulo 256;
  no assertion of the server continuation fails, and the checks of the client
  continuation on that response and the tag hold.
\<close>

theorem nested_request_plus_three:
  assumes "kSessionReqWindow < 30" and "1 < kMaxMsgSize" and "length region = unat kMaxMsgSize"
    and "client_request_helper kSessionReqWindow kMaxMsgSize sample num_reqs_sent mi region =
           Inr (req, t)"
  shows "req = replicate (length req) (ucast mi) \<and>
         (\<exists>resp. server_cont_func f3
                    (req_handler_ss f2 (req_msgbuf_ss (req_handler_cs f1 req)))
                    (req_handler_cs f1 req) = Inr resp \<and>
                 length resp = length req \<and>
                 (\<forall>i < length req.
                    resp ! i = ucast mi + 3 \<and>
                    uint (resp ! i) = (uint (ucast mi :: 8 word) + 3) mod 256) \<and>
                 client_cont_func resp (tag t))"
proof -
  let ?b = "ucast mi :: 8 word"
  let ?sz = "get_rand_msg_size kMaxMsgSize sample"
  let ?n = "unat ?sz"
  from assms(4) have mi: "mi < kSessionReqWindow"
    and req: "req = take ?n (fill_loop 0 ?n ?b region)"
    and t: "t = tag_t_of_fields (ucast num_reqs_sent) (ucast mi) (ucast ?sz)"
    by (auto simp: client_request_helper_def Let_def split: if_splits)
  note sz = get_rand_msg_size_unat[OF assms(2), of sample]
  have b: "uint ?b < 30" using mi assms(1) by (rule fill_byte_small)
  have "?n \<le> length region" using sz(2) assms(3) by simp
  then have req': "req = replicate ?n ?b"
    by (simp add: req fill_loop_eq)
  have len: "length req = ?n" by (simp add: req')
  note h = handlers_on_replicate[OF b]
  have three: "?b + 1 + 1 + 1 = ?b + 3" by simp
  have run: "server_cont_func f3 (req_handler_ss f2 (req_msgbuf_ss (req_handler_cs f1 req)))
               (req_handler_cs f1 req) = Inr (replicate ?n (?b + 3))"
    by (simp only: req' h three ServerReqInfo.simps)
  have u3: "uint (?b + 3) = uint ?b + 3"
    using small_byte_sums(3)[OF b] by (simp only: three)
  have bytes: "\<forall>i < length req. replicate ?n (?b + 3) ! i = ?b + 3 \<and>
      uint (replicate ?n (?b + 3) ! i) = (uint ?b + 3) mod 256"
    using b u3 by (simp add: len)
  have mi_small: "unat mi < 2 ^ 16"
  proof -
    have "unat mi < unat kSessionReqWindow" "unat kSessionReqWindow < 30"
      using mi assms(1) by (simp_all add: word_less_nat_alt)
    then show ?thesis by simp
  qed
  have cont: "client_cont_func (replicate ?n (?b + 3)) (tag t)"
    using u3
    by (simp add: client_cont_func_def Let_def tag_t_of_size_tag t tag_fields
        ucast_64_32_64[OF sz(3)] ucast_64_16_64[OF mi_small] check_plus_three_iff)
  from req' len run bytes cont show ?thesis by auto
qed


theorem nested_request_plus_three_witness:
  "client_request_helper 8 5 7 0 6 [9, 9, 9, 9, 9] = Inr ([6, 6], tag_t_of_fields 0 6 2) \<and>
   req_handler_cs (\<lambda>i. 0) [6, 6] = \<lparr>req_size_cs = 2, req_msgbuf_ss = [7, 7]\<rparr> \<and>
   req_handler_ss (\<lambda>i. 0) [7, 7] = [8, 8] \<and>
   server_cont_func (\<lambda>i. 0) [8, 8] \<lparr>req_size_cs = 2, req_msgbuf_ss = [7, 7]\<rparr> = Inr [9, 9] \<and>
   client_cont_func [9, 9] (tag (tag_t_of_fields 0 6 2))"
proof -
  have helper: "client_request_helper 8 5 7 0 6 [9, 9, 9, 9, 9] = Inr ([6, 6], tag_t_of_fields 0 6 2)"
    by code_simp
  have cs: "req_handler_cs (\<lambda>i. 0) [6, 6] = \<lparr>req_size_cs = 2, req_msgbuf_ss = [7, 7]\<rparr>"
    by code_simp
  have ss: "req_handler_ss (\<lambda>i. 0) [7, 7] = [8, 8]"
    by code_simp
  have cont: "server_cont_func (\<lambda>i. 0) [8, 8] \<lparr>req_size_cs = 2, req_msgbuf_ss = [7, 7]\<rparr> = Inr [9, 9]"
    by code_simp
  have pre: "(8 :: 64 word) < 30" "(1 :: 64 word) < 5"
    "length [9, 9, 9, 9, 9 :: 8 word] = unat (5 :: 64 word)"
    by simp_all
  from nested_request_plus_three[OF pre helper,
      where ?f1.0 = "\<lambda>i. 0" and ?f2.0 = "\<lambda>i. 0" and ?f3.0 = "\<lambda>i. 0"]
  have "client_cont_func [9, 9] (tag (tag_t_of_fields 0 6 2))"
    by (simp add: cs ss cont)
  with helper cs ss cont show ?thesis by simp
qed


text \<open>
  C8. The three fields packed into a tag by \<open>tag_t(req_i, msgbuf_i, req_size)\<close>, read as
  the word \<open>tag\<close>, passed on as a \<open>size_t\<close> and made a \<open>tag_t\<close> again by \<open>tag_t(size_t)\<close>,
  are read back unchanged; a \<open>size_t\<close> made a \<open>tag_t\<close> reads back as the same word, and a
  \<open>tag_t\<close> is determined by its word, the object being as large as a \<open>size_t\<close>.
\<close>

theorem tag_round_trip:
  "req_i (tag_t_of_size (tag (tag_t_of_fields r m sz))) = r \<and>
   msgbuf_i (tag_t_of_size (tag (tag_t_of_fields r m sz))) = m \<and>
   req_size (tag_t_of_size (tag (tag_t_of_fields r m sz))) = sz \<and>
   tag (tag_t_of_size w) = w \<and> tag_t_of_size (tag t) = t"
  by (simp add: tag_t_of_size_tag tag_fields) (simp add: tag_t_of_size_def)

text \<open>
  C9. For a maximum message size above 1 and every 32-bit sample, \<open>get_rand_msg_size\<close>
  returns a size that is at least 1 and strictly below \<open>kMaxMsgSize\<close>.
\<close>

theorem get_rand_msg_size_range:
  assumes "1 < kMaxMsgSize"
  shows "1 \<le> get_rand_msg_size kMaxMsgSize sample \<and>
         get_rand_msg_size kMaxMsgSize sample < kMaxMsgSize"
  using get_rand_msg_size_unat(1,2)[OF assms, of sample]
  by (simp add: word_le_nat_alt word_less_nat_alt)

theorem get_rand_msg_size_range_witness:
  "get_rand_msg_size 8388608 16777216 = 1 \<and> get_rand_msg_size 8388608 4294967295 = 8388607 \<and>
   (1 :: 64 word) \<le> get_rand_msg_size 8388608 16777216 \<and>
   get_rand_msg_size 8388608 16777216 < 8388608 \<and>
   (1 :: 64 word) \<le> get_rand_msg_size 8388608 4294967295 \<and>
   get_rand_msg_size 8388608 4294967295 < 8388608"
  using get_rand_msg_size_range[of 8388608 16777216] get_rand_msg_size_range[of 8388608 4294967295]
  by (simp add: get_rand_msg_size_def)

section \<open>Properties of the rate test\<close>

text \<open>
  C5. The while loop of the rate test is entered in the first iteration of the outer
  loop with a new wheel (of at least one bucket and positive width) into which one
  window of \<open>kSessionCredits\<close> entries has been inserted. However many iterations it
  has run, on whatever clock values: it has not popped from an empty queue, and the
  entries in the wheel and in the ready queue number \<open>kSessionCredits\<close>. In the next
  iteration, \<open>num_ready\<close> is at most \<open>kSessionCredits\<close>; the iteration inserts
  \<open>num_ready\<close> entries into the wheel and pops \<open>num_ready\<close> entries, which empties
  the ready queue, so that the entries again number \<open>kSessionCredits\<close>. In a later
  iteration of the outer loop, which starts once \<open>num_pkts_sent\<close> has reached
  \<open>num_pkts\<close> and never resets it, the while loop runs no iteration at all.
\<close>

theorem rate_test_accounting:
  assumes "0 < B" and "0 < w"
  shows "(\<exists>st. transmit_loop clock cycles_per_pkt
                 (send_one_window kSessionCredits cycles_per_pkt (rate_test_start B w t0 start)) =
               Inr st \<and>
             in_wheel (wheel st) + length (ready_queue (wheel st)) = kSessionCredits \<and>
             length (ready_queue (reap (unat now) (wheel st))) \<le> kSessionCredits \<and>
             (\<exists>st'. transmit_step now cycles_per_pkt st = Inr st' \<and>
                in_wheel (wheel st') =
                  in_wheel (reap (unat now) (wheel st)) +
                  length (ready_queue (reap (unat now) (wheel st))) \<and>
                ready_queue (wheel st') = [] \<and>
                in_wheel (wheel st') + length (ready_queue (wheel st')) = kSessionCredits)) \<and>
         (\<not> num_pkts_sent st2 < num_pkts \<longrightarrow>
            transmit_loop clock2 cycles_per_pkt2
              (send_one_window kSessionCredits cycles_per_pkt2 (st2\<lparr>last_tsc := start2\<rparr>)) =
            Inr (send_one_window kSessionCredits cycles_per_pkt2 (st2\<lparr>last_tsc := start2\<rparr>)))"
proof
  let ?st0 = "send_one_window kSessionCredits cycles_per_pkt (rate_test_start B w t0 start)"
  have "window_in_wheel kSessionCredits ?st0"
    using assms(1) by (rule first_window_in_wheel)
  from transmit_loop_window[OF this]
  obtain st where st: "transmit_loop clock cycles_per_pkt ?st0 = Inr st"
    "window_in_wheel kSessionCredits st"
    by blast
  from transmit_step_effect[OF st(2), of now cycles_per_pkt]
  obtain st' where st': "length (ready_queue (reap (unat now) (wheel st))) \<le> kSessionCredits"
    "transmit_step now cycles_per_pkt st = Inr st'"
    "in_wheel (wheel st') =
       in_wheel (reap (unat now) (wheel st)) + length (ready_queue (reap (unat now) (wheel st)))"
    "ready_queue (wheel st') = []"
    "window_in_wheel kSessionCredits st'"
    by blast
  have "in_wheel (wheel st) + length (ready_queue (wheel st)) = kSessionCredits"
    "in_wheel (wheel st') + length (ready_queue (wheel st')) = kSessionCredits"
    using st(2) st'(5) by (simp_all add: window_in_wheel_def)
  with st(1) st'(1-4)
  show "\<exists>st. transmit_loop clock cycles_per_pkt ?st0 = Inr st \<and>
             in_wheel (wheel st) + length (ready_queue (wheel st)) = kSessionCredits \<and>
             length (ready_queue (reap (unat now) (wheel st))) \<le> kSessionCredits \<and>
             (\<exists>st'. transmit_step now cycles_per_pkt st = Inr st' \<and>
                in_wheel (wheel st') =
                  in_wheel (reap (unat now) (wheel st)) +
                  length (ready_queue (reap (unat now) (wheel st))) \<and>
                ready_queue (wheel st') = [] \<and>
                in_wheel (wheel st') + length (ready_queue (wheel st')) = kSessionCredits)"
    by blast
next
  show "\<not> num_pkts_sent st2 < num_pkts \<longrightarrow>
            transmit_loop clock2 cycles_per_pkt2
              (send_one_window kSessionCredits cycles_per_pkt2 (st2\<lparr>last_tsc := start2\<rparr>)) =
            Inr (send_one_window kSessionCredits cycles_per_pkt2 (st2\<lparr>last_tsc := start2\<rparr>))"
    by (cases clock2) (simp_all add: send_one_window_num_pkts_sent)
qed


theorem rate_test_accounting_witness:
  "(\<exists>st. transmit_loop [25] 15 (send_one_window 2 15 (rate_test_start 4 10 0 0)) = Inr st \<and>
       in_wheel (wheel st) + length (ready_queue (wheel st)) = 2 \<and>
       length (ready_queue (reap (unat (50 :: 64 word)) (wheel st))) \<le> 2 \<and>
       (\<exists>st'. transmit_step 50 15 st = Inr st' \<and>
          in_wheel (wheel st') =
            in_wheel (reap (unat (50 :: 64 word)) (wheel st)) +
            length (ready_queue (reap (unat (50 :: 64 word)) (wheel st))) \<and>
          ready_queue (wheel st') = [] \<and>
          in_wheel (wheel st') + length (ready_queue (wheel st')) = 2)) \<and>
   length (ready_queue (reap 25 (wheel (send_one_window 2 15 (rate_test_start 4 10 0 0))))) = 2 \<and>
   transmit_loop [7] 15
     (send_one_window 2 15 (\<lparr>wheel = TimingWheel_init 4 10 0, last_tsc = 9, num_pkts_sent = 10000\<rparr>
        \<lparr>last_tsc := 0\<rparr>)) =
   Inr (send_one_window 2 15 (\<lparr>wheel = TimingWheel_init 4 10 0, last_tsc = 9, num_pkts_sent = 10000\<rparr>
        \<lparr>last_tsc := 0\<rparr>))"
proof -
  have ready: "length (ready_queue (reap 25 (wheel (send_one_window 2 15 (rate_test_start 4 10 0 0))))) = 2"
    by code_simp
  have reached: "\<not> num_pkts_sent \<lparr>wheel = TimingWheel_init 4 10 0, last_tsc = 9, num_pkts_sent = 10000\<rparr>
      < num_pkts"
    by (simp add: num_pkts_def)
  from rate_test_accounting[where B = 4 and w = 10 and ?t0.0 = 0 and start = 0 and clock = "[25]"
      and cycles_per_pkt = 15 and kSessionCredits = 2 and now = 50
      and ?st2.0 = "\<lparr>wheel = TimingWheel_init 4 10 0, last_tsc = 9, num_pkts_sent = 10000\<rparr>"
      and ?clock2.0 = "[7]" and ?cycles_per_pkt2.0 = 15 and ?start2.0 = 0] ready reached
  show ?thesis by simp
qed

end
